theory Spec2Isabelle
  imports Complex_Main "HOL-Library.Sublist" "HOL-Library.AList" "HOL-Library.Multiset"
begin

section \<open>Strings and the built-ins the scripts call\<close>

text \<open>
  A JavaScript string is modelled by the list of the bytes of its UTF-8 encoding (the
  strings are well formed, without lone surrogates), so an ASCII literal of the scripts
  is the same literal here and a Chinese literal is spelled out byte by byte. On such
  strings, equality (\<open>===\<close>) and \<open>String.prototype.includes\<close> agree with equality and
  contiguous-sublist search on the bytes.

  \<open>String.prototype.trim\<close> removes, at both ends, the code points that ECMAScript
  counts as white space or line terminators: U+0009 to U+000D, U+0020, U+00A0, U+1680,
  U+2000 to U+200A, U+2028, U+2029, U+202F, U+205F, U+3000 and U+FEFF. \<open>WHITE_SPACE\<close>
  lists their encodings.
\<close>

definition WHITE_SPACE :: "string list" where
  "WHITE_SPACE =
     [[CHR 0x09], [CHR 0x0A], [CHR 0x0B], [CHR 0x0C], [CHR 0x0D], [CHR 0x20],
      [CHR 0xC2, CHR 0xA0], [CHR 0xE1, CHR 0x9A, CHR 0x80],
      [CHR 0xE2, CHR 0x80, CHR 0x80], [CHR 0xE2, CHR 0x80, CHR 0x81],
      [CHR 0xE2, CHR 0x80, CHR 0x82], [CHR 0xE2, CHR 0x80, CHR 0x83],
      [CHR 0xE2, CHR 0x80, CHR 0x84], [CHR 0xE2, CHR 0x80, CHR 0x85],
      [CHR 0xE2, CHR 0x80, CHR 0x86], [CHR 0xE2, CHR 0x80, CHR 0x87],
      [CHR 0xE2, CHR 0x80, CHR 0x88], [CHR 0xE2, CHR 0x80, CHR 0x89],
      [CHR 0xE2, CHR 0x80, CHR 0x8A], [CHR 0xE2, CHR 0x80, CHR 0xA8],
      [CHR 0xE2, CHR 0x80, CHR 0xA9], [CHR 0xE2, CHR 0x80, CHR 0xAF],
      [CHR 0xE2, CHR 0x81, CHR 0x9F], [CHR 0xE3, CHR 0x80, CHR 0x80],
      [CHR 0xEF, CHR 0xBB, CHR 0xBF]]"

text \<open>Removing from the front of a string every leading occurrence of one of \<open>ws\<close>.\<close>

fun strip_prefixes :: "string list \<Rightarrow> string \<Rightarrow> string" where
  "strip_prefixes ws [] = []"
| "strip_prefixes ws (c # cs) =
     (case find (\<lambda>w. w \<noteq> [] \<and> prefix w (c # cs)) ws of
        None \<Rightarrow> c # cs
      | Some w \<Rightarrow> strip_prefixes ws (drop (length w - 1) cs))"

definition trim :: "string \<Rightarrow> string" where
  "trim s = rev (strip_prefixes (map rev WHITE_SPACE) (rev (strip_prefixes WHITE_SPACE s)))"

text \<open>
  \<open>String.prototype.toLowerCase\<close> follows the Unicode case tables. The case mapping is
  a parameter \<open>lowerCase\<close> of every function that calls it; the embedding itself fixes
  only that the empty string is mapped to the empty string.
\<close>

definition toLowerCase :: "(string \<Rightarrow> string) \<Rightarrow> string \<Rightarrow> string" where
  "toLowerCase lowerCase s = (if s = [] then [] else lowerCase s)"

text \<open>
  A case mapping to run the definitions with: it agrees with the built-in on strings
  of ASCII characters.
\<close>

definition lower_char :: "char \<Rightarrow> char" where
  "lower_char c =
     (let n = of_char c :: nat in if 65 \<le> n \<and> n \<le> 90 then char_of (n + 32) else c)"

definition ascii_lower :: "string \<Rightarrow> string" where
  "ascii_lower s = map lower_char s"

text \<open>\<open>hay.includes(q)\<close>: \<open>q\<close> occurs in \<open>hay\<close> as a contiguous run.\<close>

definition js_includes :: "string \<Rightarrow> string \<Rightarrow> bool" where
  "js_includes hay q = sublist q hay"

text \<open>
  \<open>x || d\<close> for a text field that may be absent: \<open>None\<close> stands for \<open>undefined\<close> or
  \<open>null\<close>, and the empty string is falsy as well.
\<close>

definition or_str :: "string option \<Rightarrow> string \<Rightarrow> string" where
  "or_str x d = (case x of None \<Rightarrow> d | Some s \<Rightarrow> if s = [] then d else s)"

section \<open>Data model\<close>

text \<open>
  An item of the snapshot. \<open>site_id\<close>, \<open>site_name\<close>, \<open>source\<close> and \<open>url\<close> are strings
  (possibly empty); the three titles and the two time stamps may be absent.
\<close>

record news_item =
  title :: "string option"
  title_zh :: "string option"
  title_en :: "string option"
  site_id :: string
  site_name :: string
  source :: string
  url :: string
  published_at :: "string option"
  first_seen_at :: "string option"

text \<open>
  A value as \<open>JSON.parse\<close> returns it. An array is an object of class \<open>ArrayObject\<close>
  (its elements are the properties named by the indices), so that \<open>typeof\<close> gives
  \<open>"object"\<close> for both classes, as it does in the language.
\<close>

datatype obj_class = PlainObject | ArrayObject

datatype jsval =
    JNull
  | JBool bool
  | JNum rat
  | JStr string
  | JObj obj_class "string \<Rightarrow> jsval option"

datatype view_mode = ModeAi | ModeAll

text \<open>The \<open>state\<close> singleton of the main page script.\<close>

record state =
  itemsAi :: "news_item list"
  itemsAll :: "news_item list"
  itemsAllRaw :: "news_item list"
  totalAi :: nat
  totalRaw :: nat
  totalAllMode :: nat
  followOpmlItems :: "news_item list"
  allDedup :: bool
  siteFilter :: string
  query :: string
  mode :: view_mode
  generatedAt :: "string option"
  accordionState :: jsval

section \<open>Filtering\<close>

definition effectiveAllItems :: "state \<Rightarrow> news_item list" where
  "effectiveAllItems st = (if allDedup st then itemsAll st else itemsAllRaw st)"

definition modeItems :: "state \<Rightarrow> news_item list" where
  "modeItems st = (if mode st = ModeAll then effectiveAllItems st else itemsAi st)"

text \<open>
  \<open>getFilteredItems\<close>. The haystack is the template literal of the callback: five
  fields joined by single spaces.
\<close>

definition getFilteredItems :: "(string \<Rightarrow> string) \<Rightarrow> state \<Rightarrow> news_item list" where
  "getFilteredItems lowerCase st =
     (let q = toLowerCase lowerCase (trim (query st)) in
      filter (\<lambda>item.
          if siteFilter st \<noteq> [] \<and> site_id item \<noteq> siteFilter st then False
          else if q = [] then True
          else js_includes
                 (toLowerCase lowerCase
                    (or_str (title item) [] @ '' '' @ or_str (title_zh item) [] @ '' '' @
                     or_str (title_en item) [] @ '' '' @ or_str (Some (site_name item)) [] @
                     '' '' @ or_str (Some (source item)) []))
                 q)
        (modeItems st))"

text \<open>
  The criterion in the words of the specification: the query is a case-insensitive
  substring of one of the title fields, of the site name or of the source.
\<close>

definition matches_some_field :: "(string \<Rightarrow> string) \<Rightarrow> news_item \<Rightarrow> string \<Rightarrow> bool" where
  "matches_some_field lowerCase item q =
     (js_includes (toLowerCase lowerCase (or_str (title item) [])) (toLowerCase lowerCase q) \<or>
      js_includes (toLowerCase lowerCase (or_str (title_zh item) [])) (toLowerCase lowerCase q) \<or>
      js_includes (toLowerCase lowerCase (or_str (title_en item) [])) (toLowerCase lowerCase q) \<or>
      js_includes (toLowerCase lowerCase (site_name item)) (toLowerCase lowerCase q) \<or>
      js_includes (toLowerCase lowerCase (source item)) (toLowerCase lowerCase q))"

text \<open>
  Items to run the definitions with, the literal \<open>state0\<close> with which the script
  initialises \<open>state\<close>, and a state that holds two items.
\<close>

definition item_a :: news_item where
  "item_a = \<lparr>title = Some ''ab'', title_zh = Some ''cd'', title_en = None,
     site_id = ''X'', site_name = ''Site X'', source = ''news'', url = ''u1'',
     published_at = None, first_seen_at = None\<rparr>"

definition item_b :: news_item where
  "item_b = \<lparr>title = None, title_zh = Some ''Zh'', title_en = Some ''En'',
     site_id = ''Y'', site_name = ''Site Y'', source = [], url = ''u2'',
     published_at = None, first_seen_at = None\<rparr>"

definition state0 :: state where
  "state0 = \<lparr>itemsAi = [], itemsAll = [], itemsAllRaw = [], totalAi = 0, totalRaw = 0,
     totalAllMode = 0, followOpmlItems = [], allDedup = True, siteFilter = [], query = [],
     mode = ModeAi, generatedAt = None, accordionState = JObj PlainObject Map.empty\<rparr>"

definition state_ab :: state where
  "state_ab = state0\<lparr>itemsAi := [item_a, item_b]\<rparr>"

definition items_w :: "news_item list" where
  "items_w = [item_a\<lparr>site_id := ''Z'', site_name := ''Same''\<rparr>,
              item_a\<lparr>site_id := ''W'', site_name := ''Same''\<rparr>, item_b, item_b]"

section \<open>Maps and sorting\<close>

text \<open>
  A \<open>Map\<close> with string keys is an association list in insertion order: \<open>m.has(k)\<close> is
  \<open>map_of m k \<noteq> None\<close>, \<open>m.get(k)\<close> is \<open>map_of m k\<close>, and \<open>m.set(k, v)\<close> is
  \<open>AList.update k v m\<close>, which replaces the value of a present key in place and appends
  a new key at the end; \<open>Array.from(m.entries())\<close> is the list itself.

  \<open>Array.prototype.sort\<close> is stable; with a consistent comparator it returns the sorted
  permutation that keeps equal elements in their order. It is modelled by insertion
  from the right, where an element goes in front of the first one it does not exceed.
\<close>

fun insort_cmp :: "('a \<Rightarrow> 'a \<Rightarrow> int) \<Rightarrow> 'a \<Rightarrow> 'a list \<Rightarrow> 'a list" where
  "insort_cmp cmp x [] = [x]"
| "insort_cmp cmp x (y # ys) = (if cmp x y \<le> 0 then x # y # ys else y # insort_cmp cmp x ys)"

definition array_sort :: "('a \<Rightarrow> 'a \<Rightarrow> int) \<Rightarrow> 'a list \<Rightarrow> 'a list" where
  "array_sort cmp xs = foldr (insort_cmp cmp) xs []"

text \<open>
  \<open>a.localeCompare(b, "zh-CN")\<close> is a parameter \<open>lc\<close> of every function that sorts.
  What the claims need of it is that it is a consistent comparator: swapping the
  arguments flips the sign, and \<open>\<le> 0\<close> is transitive.
\<close>

definition consistent_comparator :: "('a \<Rightarrow> 'a \<Rightarrow> int) \<Rightarrow> bool" where
  "consistent_comparator lc =
     ((\<forall>a b. sgn (lc b a) = - sgn (lc a b)) \<and>
      (\<forall>a b c. lc a b \<le> 0 \<longrightarrow> lc b c \<le> 0 \<longrightarrow> lc a c \<le> 0))"

text \<open>
  The three comparators of the scripts have one shape: the difference of the counts,
  and the locale comparison of the names when the counts are equal.
\<close>

definition count_then_name ::
  "('a \<Rightarrow> nat) \<Rightarrow> ('a \<Rightarrow> string) \<Rightarrow> (string \<Rightarrow> string \<Rightarrow> int) \<Rightarrow> 'a \<Rightarrow> 'a \<Rightarrow> int" where
  "count_then_name cnt nm lc a b =
     (let d = int (cnt b) - int (cnt a) in if d \<noteq> 0 then d else lc (nm a) (nm b))"

text \<open>The keys of a \<open>Map\<close> come in the order in which they were first set.\<close>

definition encounter_order :: "'a list \<Rightarrow> 'a list" where
  "encounter_order ks = rev (remdups (rev ks))"

text \<open>A comparator to run the definitions with: byte-wise lexicographic order.\<close>

fun lex_compare :: "string \<Rightarrow> string \<Rightarrow> int" where
  "lex_compare [] [] = 0"
| "lex_compare [] (y # ys) = - 1"
| "lex_compare (x # xs) [] = 1"
| "lex_compare (x # xs) (y # ys) =
     (if (of_char x :: nat) < of_char y then - 1
      else if (of_char y :: nat) < of_char x then 1
      else lex_compare xs ys)"

section \<open>Site statistics\<close>

record site_stat =
  stat_site_id :: string
  stat_site_name :: string
  stat_count :: nat
  stat_raw_count :: nat

text \<open>The body of the \<open>forEach\<close> of \<open>computeSiteStats\<close>.\<close>

definition site_stat_step :: "(string \<times> site_stat) list \<Rightarrow> news_item \<Rightarrow> (string \<times> site_stat) list" where
  "site_stat_step m item =
     (let m1 = (if map_of m (site_id item) = None
                then AList.update (site_id item)
                       \<lparr>stat_site_id = site_id item, stat_site_name = site_name item,
                        stat_count = 0, stat_raw_count = 0\<rparr> m
                else m)
      in case map_of m1 (site_id item) of
           None \<Rightarrow> m1
         | Some row \<Rightarrow>
             AList.update (site_id item)
               (row\<lparr>stat_count := stat_count row + 1, stat_raw_count := stat_raw_count row + 1\<rparr>) m1)"

definition site_stat_rows :: "news_item list \<Rightarrow> site_stat list" where
  "site_stat_rows items = map snd (foldl site_stat_step [] items)"

definition computeSiteStats :: "(string \<Rightarrow> string \<Rightarrow> int) \<Rightarrow> news_item list \<Rightarrow> site_stat list" where
  "computeSiteStats lc items =
     array_sort
       (\<lambda>a b. let d = int (stat_count b) - int (stat_count a)
              in if d \<noteq> 0 then d else lc (stat_site_name a) (stat_site_name b))
       (site_stat_rows items)"

definition currentSiteStats :: "(string \<Rightarrow> string \<Rightarrow> int) \<Rightarrow> state \<Rightarrow> site_stat list" where
  "currentSiteStats lc st =
     (if mode st = ModeAi then computeSiteStats lc (itemsAi st)
      else computeSiteStats lc (if allDedup st then itemsAll st else itemsAllRaw st))"

section \<open>Grouping\<close>

definition UNSPECIFIED_SOURCE :: string where
  "UNSPECIFIED_SOURCE =
     [CHR 0xE6, CHR 0x9C, CHR 0xAA, CHR 0xE5, CHR 0x88, CHR 0x86,
      CHR 0xE5, CHR 0x8C, CHR 0xBA]"

text \<open>\<open>item.source || "..."\<close>, the key of an item in \<open>groupBySource\<close>.\<close>

definition source_key :: "news_item \<Rightarrow> string" where
  "source_key item = or_str (Some (source item)) UNSPECIFIED_SOURCE"

text \<open>The body of the \<open>forEach\<close> of \<open>groupBySource\<close>.\<close>

definition source_group_step ::
  "(string \<times> news_item list) list \<Rightarrow> news_item \<Rightarrow> (string \<times> news_item list) list" where
  "source_group_step m item =
     (let key = source_key item;
          m1 = (if map_of m key = None then AList.update key [] m else m)
      in case map_of m1 key of
           None \<Rightarrow> m1
         | Some xs \<Rightarrow> AList.update key (xs @ [item]) m1)"

definition source_group_map :: "news_item list \<Rightarrow> (string \<times> news_item list) list" where
  "source_group_map items = foldl source_group_step [] items"

definition groupBySource ::
  "(string \<Rightarrow> string \<Rightarrow> int) \<Rightarrow> news_item list \<Rightarrow> (string \<times> news_item list) list" where
  "groupBySource lc items =
     array_sort
       (\<lambda>a b. let d = int (length (snd b)) - int (length (snd a))
              in if d \<noteq> 0 then d else lc (fst a) (fst b))
       (source_group_map items)"

text \<open>The site level of \<open>renderGroupedBySiteAndSource\<close>: its \<open>siteMap\<close> and its \<open>sites\<close>.\<close>

record site_entry =
  siteName :: string
  site_items :: "news_item list"

definition site_group_step ::
  "(string \<times> site_entry) list \<Rightarrow> news_item \<Rightarrow> (string \<times> site_entry) list" where
  "site_group_step m item =
     (let m1 = (if map_of m (site_id item) = None
                then AList.update (site_id item)
                       \<lparr>siteName = or_str (Some (site_name item)) (site_id item),
                        site_items = []\<rparr> m
                else m)
      in case map_of m1 (site_id item) of
           None \<Rightarrow> m1
         | Some e \<Rightarrow> AList.update (site_id item) (e\<lparr>site_items := site_items e @ [item]\<rparr>) m1)"

definition site_group_map :: "news_item list \<Rightarrow> (string \<times> site_entry) list" where
  "site_group_map items = foldl site_group_step [] items"

definition site_groups ::
  "(string \<Rightarrow> string \<Rightarrow> int) \<Rightarrow> news_item list \<Rightarrow> (string \<times> site_entry) list" where
  "site_groups lc items =
     array_sort
       (\<lambda>a b. let byCount = int (length (site_items (snd b))) - int (length (site_items (snd a)))
              in if byCount \<noteq> 0 then byCount else lc (siteName (snd a)) (siteName (snd b)))
       (site_group_map items)"

section \<open>Text constants of the scripts\<close>

text \<open>The literals of the scripts that are not ASCII, as UTF-8 bytes, in the order:
  no title; time unknown; the two source labels of an item; subscription; no results;
  no follow data; no momoyu data; updated at; the message prefix of a failed load; the
  two failure labels; unnamed subscription; unnamed section; the momoyu heading; the
  separator dot.\<close>

definition NO_TITLE :: string where
  "NO_TITLE =
     [CHR 0xE6, CHR 0x97, CHR 0xA0, CHR 0xE6, CHR 0xA0, CHR 0x87,
      CHR 0xE9, CHR 0xA2, CHR 0x98]"

definition UNKNOWN_TIME :: string where
  "UNKNOWN_TIME =
     [CHR 0xE6, CHR 0x97, CHR 0xB6, CHR 0xE9, CHR 0x97, CHR 0xB4,
      CHR 0xE6, CHR 0x9C, CHR 0xAA, CHR 0xE7, CHR 0x9F, CHR 0xA5]"

definition SECTION_LABEL :: string where
  "SECTION_LABEL =
     [CHR 0xE5, CHR 0x88, CHR 0x86, CHR 0xE5, CHR 0x8C, CHR 0xBA] @
     '': ''"

definition ORIGIN_LABEL :: string where
  "ORIGIN_LABEL =
     [CHR 0xE6, CHR 0x9D, CHR 0xA5, CHR 0xE6, CHR 0xBA, CHR 0x90] @
     '': ''"

definition SUBSCRIPTION :: string where
  "SUBSCRIPTION =
     [CHR 0xE8, CHR 0xAE, CHR 0xA2, CHR 0xE9, CHR 0x98, CHR 0x85]"

definition NO_RESULTS :: string where
  "NO_RESULTS =
     [CHR 0xE5, CHR 0xBD, CHR 0x93, CHR 0xE5, CHR 0x89, CHR 0x8D,
      CHR 0xE7, CHR 0xAD, CHR 0x9B, CHR 0xE9, CHR 0x80, CHR 0x89,
      CHR 0xE6, CHR 0x9D, CHR 0xA1, CHR 0xE4, CHR 0xBB, CHR 0xB6,
      CHR 0xE4, CHR 0xB8, CHR 0x8B, CHR 0xE6, CHR 0xB2, CHR 0xA1,
      CHR 0xE6, CHR 0x9C, CHR 0x89, CHR 0xE7, CHR 0xBB, CHR 0x93,
      CHR 0xE6, CHR 0x9E, CHR 0x9C, CHR 0xE3, CHR 0x80, CHR 0x82]"

definition NO_FOLLOW_DATA :: string where
  "NO_FOLLOW_DATA =
     [CHR 0xE6, CHR 0x9A, CHR 0x82, CHR 0xE6, CHR 0x97, CHR 0xA0] @
     '' follow.opml '' @
     [CHR 0xE6, CHR 0x95, CHR 0xB0, CHR 0xE6, CHR 0x8D, CHR 0xAE,
      CHR 0xE3, CHR 0x80, CHR 0x82]"

definition NO_MOMOYU_DATA :: string where
  "NO_MOMOYU_DATA =
     [CHR 0xE6, CHR 0x9A, CHR 0x82, CHR 0xE6, CHR 0x97, CHR 0xA0] @
     '' momoyu RSS '' @
     [CHR 0xE6, CHR 0x95, CHR 0xB0, CHR 0xE6, CHR 0x8D, CHR 0xAE,
      CHR 0xE3, CHR 0x80, CHR 0x82]"

definition UPDATED_PREFIX :: string where
  "UPDATED_PREFIX =
     [CHR 0xE6, CHR 0x9B, CHR 0xB4, CHR 0xE6, CHR 0x96, CHR 0xB0,
      CHR 0xE6, CHR 0x97, CHR 0xB6, CHR 0xE9, CHR 0x97, CHR 0xB4,
      CHR 0xEF, CHR 0xBC, CHR 0x9A]"

definition LOAD_FAILED_PREFIX :: string where
  "LOAD_FAILED_PREFIX =
     [CHR 0xE5, CHR 0x8A, CHR 0xA0, CHR 0xE8, CHR 0xBD, CHR 0xBD] @
     '' latest-24h.json '' @
     [CHR 0xE5, CHR 0xA4, CHR 0xB1, CHR 0xE8, CHR 0xB4, CHR 0xA5] @
     '': ''"

definition NEWS_LOAD_FAILED :: string where
  "NEWS_LOAD_FAILED =
     [CHR 0xE6, CHR 0x96, CHR 0xB0, CHR 0xE9, CHR 0x97, CHR 0xBB,
      CHR 0xE6, CHR 0x95, CHR 0xB0, CHR 0xE6, CHR 0x8D, CHR 0xAE,
      CHR 0xE5, CHR 0x8A, CHR 0xA0, CHR 0xE8, CHR 0xBD, CHR 0xBD,
      CHR 0xE5, CHR 0xA4, CHR 0xB1, CHR 0xE8, CHR 0xB4, CHR 0xA5]"

definition DATA_LOAD_FAILED :: string where
  "DATA_LOAD_FAILED =
     [CHR 0xE6, CHR 0x95, CHR 0xB0, CHR 0xE6, CHR 0x8D, CHR 0xAE,
      CHR 0xE5, CHR 0x8A, CHR 0xA0, CHR 0xE8, CHR 0xBD, CHR 0xBD,
      CHR 0xE5, CHR 0xA4, CHR 0xB1, CHR 0xE8, CHR 0xB4, CHR 0xA5]"

definition UNNAMED_SUBSCRIPTION :: string where
  "UNNAMED_SUBSCRIPTION =
     [CHR 0xE6, CHR 0x9C, CHR 0xAA, CHR 0xE5, CHR 0x91, CHR 0xBD,
      CHR 0xE5, CHR 0x90, CHR 0x8D, CHR 0xE8, CHR 0xAE, CHR 0xA2,
      CHR 0xE9, CHR 0x98, CHR 0x85]"

definition UNNAMED_SECTION :: string where
  "UNNAMED_SECTION =
     [CHR 0xE6, CHR 0x9C, CHR 0xAA, CHR 0xE5, CHR 0x91, CHR 0xBD,
      CHR 0xE5, CHR 0x90, CHR 0x8D, CHR 0xE6, CHR 0xA6, CHR 0x9C,
      CHR 0xE5, CHR 0x8D, CHR 0x95]"

definition MOMOYU_HEADING :: string where
  "MOMOYU_HEADING =
     ''momoyu '' @
     [CHR 0xE7, CHR 0xBB, CHR 0x93, CHR 0xE6, CHR 0x9E, CHR 0x84,
      CHR 0xE5, CHR 0x8C, CHR 0x96, CHR 0xE7, CHR 0x83, CHR 0xAD,
      CHR 0xE6, CHR 0xA6, CHR 0x9C]"

definition MIDDLE_DOT :: string where
  "MIDDLE_DOT =
     '' '' @
     [CHR 0xC2, CHR 0xB7] @
     '' ''"

text \<open>The markup around an error message that is assigned to \<open>innerHTML\<close>.\<close>

definition EMPTY_DIV_OPEN :: string where
  "EMPTY_DIV_OPEN = ''<div class='' @ [CHR 0x22] @ ''empty'' @ [CHR 0x22] @ ''>''"

definition EMPTY_DIV_CLOSE :: string where
  "EMPTY_DIV_CLOSE = ''</div>''"

section \<open>Titles and item nodes\<close>

text \<open>\<open>a || b\<close> for two time stamps that may be absent.\<close>

definition or_opt :: "string option \<Rightarrow> string option \<Rightarrow> string option" where
  "or_opt x y = (case x of None \<Rightarrow> y | Some s \<Rightarrow> if s = [] then y else Some s)"

text \<open>
  \<open>fmtTime\<close>. The parameter \<open>fmtDate\<close> stands for \<open>new Date(iso)\<close> followed by the
  \<open>Intl.DateTimeFormat\<close> call; it gives \<open>None\<close> when the date is invalid.
\<close>

definition fmtTime :: "(string \<Rightarrow> string option) \<Rightarrow> string option \<Rightarrow> string" where
  "fmtTime fmtDate stamp =
     (case stamp of
        None \<Rightarrow> UNKNOWN_TIME
      | Some s \<Rightarrow>
          if s = [] then UNKNOWN_TIME
          else (case fmtDate s of None \<Rightarrow> UNKNOWN_TIME | Some t \<Rightarrow> t))"



text \<open>
  What \<open>renderItemNode\<close> puts into the \<open>.title\<close> element: either one text, or a primary
  span followed by a \<open>title-sub\<close> span.
\<close>

datatype title_content = TitleText string | TitleBilingual string string

record item_node =
  node_site :: string
  node_source :: string
  node_time :: string
  node_title :: title_content
  node_href :: string

text \<open>\<open>renderItemNode\<close> of the main page script.\<close>

definition renderItemNode :: "(string \<Rightarrow> string option) \<Rightarrow> news_item \<Rightarrow> item_node" where
  "renderItemNode fmtDate item =
     (let zh = trim (or_str (title_zh item) []);
          en = trim (or_str (title_en item) [])
      in \<lparr>node_site = site_name item,
          node_source = SECTION_LABEL @ source item,
          node_time = fmtTime fmtDate (or_opt (published_at item) (first_seen_at item)),
          node_title =
            (if zh \<noteq> [] \<and> en \<noteq> [] \<and> zh \<noteq> en then TitleBilingual zh en
             else TitleText (or_str (title item) (if zh \<noteq> [] then zh else en))),
          node_href = url item\<rparr>)"

text \<open>\<open>renderItemNode\<close> of the follow page script, which differs in the defaults.\<close>

definition renderItemNode_follow :: "(string \<Rightarrow> string option) \<Rightarrow> news_item \<Rightarrow> item_node" where
  "renderItemNode_follow fmtDate item =
     (let zh = trim (or_str (title_zh item) []);
          en = trim (or_str (title_en item) [])
      in \<lparr>node_site = or_str (Some (site_name item)) SUBSCRIPTION,
          node_source = ORIGIN_LABEL @ or_str (Some (source item)) UNSPECIFIED_SOURCE,
          node_time = fmtTime fmtDate (or_opt (published_at item) (first_seen_at item)),
          node_title =
            (if zh \<noteq> [] \<and> en \<noteq> [] \<and> zh \<noteq> en then TitleBilingual zh en
             else TitleText (or_str (title item) (if zh \<noteq> [] then zh else en))),
          node_href = or_str (Some (url item)) ''#''\<rparr>)"


section \<open>Accordion state and its persistence\<close>

datatype js_error = JsError (message: string)

text \<open>
  \<open>localStorage\<close>: the stored strings, and whether reading or writing raises (private
  mode, disabled storage, exceeded quota).
\<close>

record storage =
  entries :: "string \<Rightarrow> string option"
  read_blocked :: bool
  write_blocked :: bool

definition getItem :: "storage \<Rightarrow> string \<Rightarrow> js_error + string option" where
  "getItem store k =
     (if read_blocked store then Inl (JsError ''SecurityError'') else Inr (entries store k))"

definition setItem :: "storage \<Rightarrow> string \<Rightarrow> string \<Rightarrow> js_error + storage" where
  "setItem store k v =
     (if write_blocked store then Inl (JsError ''QuotaExceededError'')
      else Inr (store\<lparr>entries := (entries store)(k \<mapsto> v)\<rparr>))"

definition ACCORDION_STORAGE_KEY :: string where
  "ACCORDION_STORAGE_KEY = ''ai-news-radar:accordion-state:v1''"

text \<open>Truthiness and \<open>typeof\<close> of a parsed value.\<close>

fun truthy :: "jsval \<Rightarrow> bool" where
  "truthy JNull = False"
| "truthy (JBool b) = b"
| "truthy (JNum n) = (n \<noteq> 0)"
| "truthy (JStr s) = (s \<noteq> [])"
| "truthy (JObj c m) = True"

fun typeof :: "jsval \<Rightarrow> string" where
  "typeof JNull = ''object''"
| "typeof (JBool b) = ''boolean''"
| "typeof (JNum n) = ''number''"
| "typeof (JStr s) = ''string''"
| "typeof (JObj c m) = ''object''"

definition empty_object :: jsval where
  "empty_object = JObj PlainObject Map.empty"

text \<open>
  \<open>JSON.parse\<close> and \<open>JSON.stringify\<close> are parameters. The \<open>try\<close> block of
  \<open>readAccordionState\<close> comes first, then the function with its \<open>catch\<close> clause.
\<close>

definition readAccordionState_try ::
  "(string \<Rightarrow> js_error + jsval) \<Rightarrow> storage \<Rightarrow> js_error + jsval" where
  "readAccordionState_try JSON_parse store =
     (case getItem store ACCORDION_STORAGE_KEY of
        Inl e \<Rightarrow> Inl e
      | Inr raw \<Rightarrow>
          if or_str raw [] = [] then Inr empty_object
          else (case JSON_parse (or_str raw []) of
                  Inl e \<Rightarrow> Inl e
                | Inr parsed \<Rightarrow>
                    Inr (if truthy parsed \<and> typeof parsed = ''object'' then parsed
                         else empty_object)))"

definition readAccordionState :: "(string \<Rightarrow> js_error + jsval) \<Rightarrow> storage \<Rightarrow> jsval" where
  "readAccordionState JSON_parse store =
     (case readAccordionState_try JSON_parse store of
        Inl e \<Rightarrow> empty_object
      | Inr v \<Rightarrow> v)"

definition writeAccordionState_try ::
  "(jsval \<Rightarrow> js_error + string) \<Rightarrow> state \<Rightarrow> storage \<Rightarrow> js_error + storage" where
  "writeAccordionState_try JSON_stringify st store =
     (case JSON_stringify (if truthy (accordionState st) then accordionState st else empty_object) of
        Inl e \<Rightarrow> Inl e
      | Inr text \<Rightarrow> setItem store ACCORDION_STORAGE_KEY text)"

definition writeAccordionState ::
  "(jsval \<Rightarrow> js_error + string) \<Rightarrow> state \<Rightarrow> storage \<Rightarrow> storage" where
  "writeAccordionState JSON_stringify st store =
     (case writeAccordionState_try JSON_stringify st store of
        Inl e \<Rightarrow> store
      | Inr store' \<Rightarrow> store')"

text \<open>
  \<open>encodeURIComponent\<close> works on the UTF-8 bytes: an unreserved ASCII character stays,
  every other byte becomes \<open>%\<close> and two upper-case hexadecimal digits.
\<close>

definition unreserved :: "char \<Rightarrow> bool" where
  "unreserved c =
     (c \<in> set (''ABCDEFGHIJKLMNOPQRSTUVWXYZabcdefghijklmnopqrstuvwxyz0123456789-_.!~*()''
               @ [CHR 0x27]))"

definition hex_digit :: "nat \<Rightarrow> char" where
  "hex_digit n = ''0123456789ABCDEF'' ! (n mod 16)"

definition encode_byte :: "char \<Rightarrow> string" where
  "encode_byte c =
     (if unreserved c then [c]
      else [CHR ''%'', hex_digit (of_char c div 16), hex_digit (of_char c mod 16)])"

definition encodeURIComponent :: "string \<Rightarrow> string" where
  "encodeURIComponent s = concat (map encode_byte s)"

fun join :: "string \<Rightarrow> string list \<Rightarrow> string" where
  "join sep [] = []"
| "join sep [x] = x"
| "join sep (x # y # ys) = x @ sep @ join sep (y # ys)"

text \<open>\<open>makeAccordionId\<close>; the parts are strings, so \<open>String(x || "")\<close> is \<open>x\<close> itself.\<close>

definition makeAccordionId :: "string list \<Rightarrow> string" where
  "makeAccordionId parts = join ''|'' (map (\<lambda>x. encodeURIComponent (or_str (Some x) [])) parts)"

text \<open>
  Property access on the accordion object; an assignment to \<open>__proto__\<close> creates no
  property of the object. \<open>bindAccordionState\<close> does two things: it
  sets \<open>node.open\<close> (\<open>accordion_open\<close>), and it registers the \<open>toggle\<close> listener
  (\<open>on_toggle\<close>), which records the new flag and writes the whole object to the store.
\<close>

fun get_prop :: "jsval \<Rightarrow> string \<Rightarrow> jsval option" where
  "get_prop (JObj c m) k = m k"
| "get_prop v k = None"

fun set_prop :: "jsval \<Rightarrow> string \<Rightarrow> jsval \<Rightarrow> jsval" where
  "set_prop (JObj c m) k v = (if k = ''__proto__'' then JObj c m else JObj c (m(k \<mapsto> v)))"
| "set_prop u k v = u"

definition accordion_open :: "state \<Rightarrow> string \<Rightarrow> bool \<Rightarrow> bool" where
  "accordion_open st ident defaultOpen =
     (case get_prop (accordionState st) ident of
        Some (JBool saved) \<Rightarrow> saved
      | _ \<Rightarrow> defaultOpen)"

definition on_toggle ::
  "(jsval \<Rightarrow> js_error + string) \<Rightarrow> string \<Rightarrow> bool \<Rightarrow> state \<Rightarrow> storage \<Rightarrow> state \<times> storage" where
  "on_toggle JSON_stringify ident node_open st store =
     (let st' = st\<lparr>accordionState := set_prop (accordionState st) ident (JBool node_open)\<rparr>
      in (st', writeAccordionState JSON_stringify st' store))"

section \<open>Rendering the news list\<close>

text \<open>
  The nodes are kept as data: for a group, the name that is put into the heading, the
  count, the accordion key, the \<open>open\<close> flag and the item nodes.
\<close>

record source_group_node =
  sg_source :: string
  sg_count :: nat
  sg_accordion_id :: string
  sg_open :: bool
  sg_items :: "item_node list"

record site_group_node =
  ss_site_name :: string
  ss_count :: nat
  ss_accordion_id :: string
  ss_open :: bool
  ss_groups :: "source_group_node list"

definition buildSourceGroupNode ::
  "(string \<Rightarrow> string option) \<Rightarrow> state \<Rightarrow> string \<Rightarrow> news_item list \<Rightarrow> string \<Rightarrow> source_group_node" where
  "buildSourceGroupNode fmtDate st src items accordionId =
     \<lparr>sg_source = src, sg_count = length items, sg_accordion_id = accordionId,
      sg_open = accordion_open st accordionId False,
      sg_items = map (renderItemNode fmtDate) items\<rparr>"

definition renderGroupedBySource ::
  "(string \<Rightarrow> string option) \<Rightarrow> (string \<Rightarrow> string \<Rightarrow> int) \<Rightarrow> state \<Rightarrow> news_item list
     \<Rightarrow> source_group_node list" where
  "renderGroupedBySource fmtDate lc st items =
     (let groups = groupBySource lc items;
          ctx = (if siteFilter st \<noteq> [] then ''site:'' @ siteFilter st else ''all'')
      in map (\<lambda>(src, groupItems).
               buildSourceGroupNode fmtDate st src groupItems
                 (makeAccordionId [''source'', ctx, src]))
           groups)"

definition renderGroupedBySiteAndSource ::
  "(string \<Rightarrow> string option) \<Rightarrow> (string \<Rightarrow> string \<Rightarrow> int) \<Rightarrow> state \<Rightarrow> news_item list
     \<Rightarrow> site_group_node list" where
  "renderGroupedBySiteAndSource fmtDate lc st items =
     map (\<lambda>(siteId, site).
            \<lparr>ss_site_name = siteName site,
             ss_count = length (site_items site),
             ss_accordion_id = makeAccordionId [''site'', siteId],
             ss_open = accordion_open st (makeAccordionId [''site'', siteId]) False,
             ss_groups =
               map (\<lambda>(src, groupItems).
                      buildSourceGroupNode fmtDate st src groupItems
                        (makeAccordionId [''source'', ''site:'' @ siteId, src]))
                 (groupBySource lc (site_items site))\<rparr>)
       (site_groups lc items)"

text \<open>
  The content of a list container of the page. \<open>EmptyBox t\<close> is a \<open>div\<close> whose
  \<open>textContent\<close> was set to \<open>t\<close>; \<open>Markup h\<close> is the string \<open>h\<close> assigned to
  \<open>innerHTML\<close>, which the browser parses as HTML.
\<close>

datatype list_content =
    EmptyBox string
  | Markup string
  | ItemNodes "item_node list"
  | SourceGroups "source_group_node list"
  | SiteGroups "site_group_node list"

text \<open>
  The elements of the main page that the script writes and the claims speak of. Counts
  are kept as numbers (the script formats them with \<open>Intl.NumberFormat\<close>).
\<close>

record page =
  updatedAt :: string
  newsList :: list_content
  resultCount :: nat
  followOpmlList :: list_content
  followOpmlCount :: nat
  modeHint :: nat
  siteOptions :: "site_stat list"

definition renderList ::
  "(string \<Rightarrow> string) \<Rightarrow> (string \<Rightarrow> string option) \<Rightarrow> (string \<Rightarrow> string \<Rightarrow> int) \<Rightarrow> state
     \<Rightarrow> page \<Rightarrow> page" where
  "renderList lowerCase fmtDate lc st pg =
     (let filtered = getFilteredItems lowerCase st;
          pg1 = pg\<lparr>resultCount := length filtered\<rparr>
      in if filtered = [] then pg1\<lparr>newsList := EmptyBox NO_RESULTS\<rparr>
         else if siteFilter st \<noteq> []
         then pg1\<lparr>newsList := SourceGroups (renderGroupedBySource fmtDate lc st filtered)\<rparr>
         else pg1\<lparr>newsList := SiteGroups (renderGroupedBySiteAndSource fmtDate lc st filtered)\<rparr>)"

definition renderFollowOpml :: "(string \<Rightarrow> string option) \<Rightarrow> state \<Rightarrow> page \<Rightarrow> page" where
  "renderFollowOpml fmtDate st pg =
     (let items = followOpmlItems st;
          pg1 = pg\<lparr>followOpmlCount := length items\<rparr>
      in if items = [] then pg1\<lparr>followOpmlList := EmptyBox NO_FOLLOW_DATA\<rparr>
         else pg1\<lparr>followOpmlList := ItemNodes (map (renderItemNode fmtDate) items)\<rparr>)"

text \<open>\<open>a || b\<close> on numbers: zero is falsy.\<close>

definition or_num :: "nat \<Rightarrow> nat \<Rightarrow> nat" where
  "or_num a b = (if a = 0 then b else a)"

definition renderModeSwitch :: "state \<Rightarrow> page \<Rightarrow> page" where
  "renderModeSwitch st pg =
     (if mode st = ModeAi then pg\<lparr>modeHint := totalAi st\<rparr>
      else pg\<lparr>modeHint :=
             (if allDedup st then or_num (totalAllMode st) (length (itemsAll st))
              else or_num (totalRaw st) (length (itemsAllRaw st)))\<rparr>)"

definition renderSiteFilters :: "(string \<Rightarrow> string \<Rightarrow> int) \<Rightarrow> state \<Rightarrow> page \<Rightarrow> page" where
  "renderSiteFilters lc st pg = pg\<lparr>siteOptions := currentSiteStats lc st\<rparr>"

section \<open>The snapshot and its load\<close>

record follow_group =
  fg_source :: "string option"
  fg_items :: "news_item list option"
  fg_shown_count :: "nat option"
  fg_subscription_url :: "string option"

record momoyu_entry =
  entry_rank :: "nat option"
  entry_title :: "string option"
  entry_url :: "string option"

record momoyu_section =
  sec_section :: "string option"
  sec_count :: "nat option"
  sec_entries :: "momoyu_entry option list option"

record momoyu_doc =
  sections :: "momoyu_section option list option"
  item_title :: "string option"
  pubDate :: "string option"

text \<open>
  The parsed payload, an object; every field may be missing. The field \<open>items\<close> of
  the payload is called \<open>payload_items\<close> here. An element of \<open>follow_opml_groups\<close>, of
  \<open>sections\<close> or of the \<open>entries\<close> of a section may be \<open>null\<close> (\<open>None\<close>): the
  renderers of the follow page read a property of it, which raises a \<open>TypeError\<close>.
\<close>

record payload =
  items_ai :: "news_item list option"
  payload_items :: "news_item list option"
  items_all :: "news_item list option"
  items_all_raw :: "news_item list option"
  total_items :: "nat option"
  total_items_raw :: "nat option"
  total_items_all_mode :: "nat option"
  follow_opml_items :: "news_item list option"
  follow_opml_groups :: "follow_group option list option"
  momoyu_items :: "news_item list option"
  momoyu_parsed :: "momoyu_doc option"
  generated_at :: "string option"

text \<open>\<open>x || d\<close> for an array that may be missing (an array, even empty, is truthy) and
  for a number that may be missing.\<close>

definition or_list :: "'a list option \<Rightarrow> 'a list \<Rightarrow> 'a list" where
  "or_list x d = (case x of None \<Rightarrow> d | Some xs \<Rightarrow> xs)"

definition or_num_opt :: "nat option \<Rightarrow> nat \<Rightarrow> nat" where
  "or_num_opt x d = (case x of None \<Rightarrow> d | Some n \<Rightarrow> or_num n d)"

text \<open>
  A response of \<open>fetch\<close>: its status and what \<open>res.json()\<close> settles to (the payload, or
  the error of a body that does not parse). \<open>res.ok\<close> is true for the statuses 200 to 299.
\<close>

record response =
  status :: nat
  body_json :: "js_error + payload"

definition response_ok :: "response \<Rightarrow> bool" where
  "response_ok res = (200 \<le> status res \<and> status res \<le> 299)"

text \<open>
  The network: what \<open>fetch\<close> settles to for a URL (a rejection or a response), and the
  log of the requests made so far.
\<close>

record network =
  answer :: "string \<Rightarrow> js_error + response"
  requests :: "string list"

definition fetch :: "network \<Rightarrow> string \<Rightarrow> (js_error + response) \<times> network" where
  "fetch net u = (answer net u, net\<lparr>requests := requests net @ [u]\<rparr>)"

text \<open>\<open>String(n)\<close> for a natural number.\<close>

fun show_nat :: "nat \<Rightarrow> string" where
  "show_nat n =
     (if n < 10 then [''0123456789'' ! n]
      else show_nat (n div 10) @ [''0123456789'' ! (n mod 10)])"

definition snapshot_url :: "nat \<Rightarrow> string" where
  "snapshot_url now = ''./data/latest-24h.json?t='' @ show_nat now"

text \<open>\<open>loadNewsData\<close>, the same in every script; \<open>now\<close> is \<open>Date.now()\<close>.\<close>

definition loadNewsData :: "network \<Rightarrow> nat \<Rightarrow> (js_error + payload) \<times> network" where
  "loadNewsData net now =
     (case fetch net (snapshot_url now) of
        (Inl e, net') \<Rightarrow> (Inl e, net')
      | (Inr res, net') \<Rightarrow>
          if \<not> response_ok res
          then (Inl (JsError (LOAD_FAILED_PREFIX @ show_nat (status res))), net')
          else (body_json res, net'))"

section \<open>Initialisation of the main page\<close>

text \<open>
  \<open>init\<close> of the main page script. It runs once, on the state literal \<open>state0\<close>. In
  the failure branch the error's message is put between the tags of a \<open>div\<close> and
  assigned to \<open>innerHTML\<close>.
\<close>

definition init ::
  "(string \<Rightarrow> js_error + jsval) \<Rightarrow> (string \<Rightarrow> string) \<Rightarrow> (string \<Rightarrow> string option)
     \<Rightarrow> (string \<Rightarrow> string \<Rightarrow> int) \<Rightarrow> nat \<Rightarrow> storage \<Rightarrow> network \<Rightarrow> state \<Rightarrow> page
     \<Rightarrow> state \<times> page \<times> network" where
  "init JSON_parse lowerCase fmtDate lc now store net st pg =
     (let st1 = st\<lparr>accordionState := readAccordionState JSON_parse store\<rparr>
      in case loadNewsData net now of
           (Inr p, net') \<Rightarrow>
             (let st2 = st1\<lparr>itemsAi := or_list (items_ai p) (or_list (payload_items p) [])\<rparr>;
                  st3 = st2\<lparr>itemsAllRaw :=
                          or_list (items_all_raw p)
                            (or_list (items_all p) (or_list (payload_items p) []))\<rparr>;
                  st4 = st3\<lparr>itemsAll := or_list (items_all p) (or_list (payload_items p) [])\<rparr>;
                  st5 = st4\<lparr>totalAi := or_num_opt (total_items p) (length (itemsAi st4))\<rparr>;
                  st6 = st5\<lparr>totalRaw := or_num_opt (total_items_raw p) (length (itemsAllRaw st5))\<rparr>;
                  st7 = st6\<lparr>totalAllMode :=
                          or_num_opt (total_items_all_mode p) (length (itemsAll st6))\<rparr>;
                  st8 = st7\<lparr>followOpmlItems := or_list (follow_opml_items p) []\<rparr>;
                  st9 = st8\<lparr>generatedAt := generated_at p\<rparr>;
                  pg1 = renderFollowOpml fmtDate st9 pg;
                  pg2 = renderModeSwitch st9 pg1;
                  pg3 = renderSiteFilters lc st9 pg2;
                  pg4 = renderList lowerCase fmtDate lc st9 pg3
              in (st9, pg4\<lparr>updatedAt := UPDATED_PREFIX @ fmtTime fmtDate (generatedAt st9)\<rparr>, net'))
         | (Inl reason, net') \<Rightarrow>
             (st1,
              pg\<lparr>updatedAt := NEWS_LOAD_FAILED,
                 newsList := Markup (EMPTY_DIV_OPEN @ message reason @ EMPTY_DIV_CLOSE)\<rparr>,
              net'))"

section \<open>The follow page script\<close>

record follow_state =
  f_followOpmlItems :: "news_item list"
  f_followOpmlGroups :: "follow_group option list"
  f_momoyuItems :: "news_item list"
  f_momoyuParsed :: "momoyu_doc option"
  f_generatedAt :: "string option"

definition follow_state0 :: follow_state where
  "follow_state0 = \<lparr>f_followOpmlItems = [], f_followOpmlGroups = [], f_momoyuItems = [],
     f_momoyuParsed = None, f_generatedAt = None\<rparr>"

record section_node =
  sn_name :: string
  sn_count :: nat
  sn_items :: "item_node list"

record momoyu_row =
  row_href :: string
  row_rank :: "nat option"
  row_title :: string

record momoyu_section_node =
  ms_name :: string
  ms_count :: nat
  ms_rows :: "momoyu_row list"

text \<open>
  The content of a list container of the follow page: cleared (\<open>innerHTML = ""\<close>), a
  string assigned to \<open>innerHTML\<close>, a \<open>div\<close> with a text, item nodes, the sections of
  the subscriptions, or the momoyu heading followed by its sections.
\<close>

datatype follow_content =
    FCleared
  | FMarkup string
  | FEmptyBox string
  | FItemNodes "item_node list"
  | FSections "section_node list"
  | FMomoyu string "momoyu_section_node list"

datatype count_text = ItemCount nat | SubscriptionCount nat nat | BoardCount nat

record follow_page =
  fp_updatedAt :: string
  fp_followOpmlList :: follow_content
  fp_followOpmlCount :: count_text
  fp_momoyuList :: follow_content
  fp_momoyuCount :: count_text

definition renderSection ::
  "(string \<Rightarrow> string option) \<Rightarrow> news_item list \<Rightarrow> string \<Rightarrow> follow_content \<times> count_text" where
  "renderSection fmtDate items emptyText =
     (if items = [] then (FEmptyBox emptyText, ItemCount (length items))
      else (FItemNodes (map (renderItemNode_follow fmtDate) items), ItemCount (length items)))"

text \<open>
  The two renderers return the page as far as they have written it, and the exception
  if one was raised. \<open>nullError\<close> is the \<open>TypeError\<close> that the engine raises when a
  property of \<open>null\<close> is read. \<open>renderFollowOpmlGroups\<close> raises in its \<open>reduce\<close>, before it
  writes the count, when a group is \<open>null\<close>.
\<close>

definition renderFollowOpmlGroups ::
  "js_error \<Rightarrow> (string \<Rightarrow> string option) \<Rightarrow> follow_state \<Rightarrow> follow_page
     \<Rightarrow> follow_page \<times> js_error option" where
  "renderFollowOpmlGroups nullError fmtDate st pg =
     (let groups = f_followOpmlGroups st;
          pg0 = pg\<lparr>fp_followOpmlList := FCleared\<rparr>
      in if groups = []
         then (case renderSection fmtDate (f_followOpmlItems st) NO_FOLLOW_DATA of
                 (content, cnt) \<Rightarrow>
                   (pg0\<lparr>fp_followOpmlList := content, fp_followOpmlCount := cnt\<rparr>, None))
         else if None \<in> set groups then (pg0, Some nullError)
         else (pg0\<lparr>fp_followOpmlCount :=
                      SubscriptionCount (length groups)
                        (foldl (\<lambda>acc group. acc + length (or_list (fg_items group) [])) 0
                           (List.map_filter (\<lambda>g. g) groups)),
                    fp_followOpmlList :=
                      FSections
                        (map (\<lambda>group.
                                \<lparr>sn_name = or_str (fg_source group) UNNAMED_SUBSCRIPTION,
                                 sn_count = or_num_opt (fg_shown_count group)
                                              (length (or_list (fg_items group) [])),
                                 sn_items = map (renderItemNode_follow fmtDate)
                                              (or_list (fg_items group) [])\<rparr>)
                           (List.map_filter (\<lambda>g. g) groups))\<rparr>,
               None))"

text \<open>
  A section is rendered completely when it is not \<open>null\<close> and none of its entries is;
  \<open>renderMomoyuParsed\<close> appends the sections in order and raises at the first one that
  is not, after it has written the count and appended the heading and the sections
  before it.
\<close>

definition section_ok :: "momoyu_section option \<Rightarrow> bool" where
  "section_ok sec =
     (case sec of None \<Rightarrow> False | Some s \<Rightarrow> None \<notin> set (or_list (sec_entries s) []))"

definition momoyu_section_view :: "momoyu_section \<Rightarrow> momoyu_section_node" where
  "momoyu_section_view sec =
     \<lparr>ms_name = or_str (sec_section sec) UNNAMED_SECTION,
      ms_count = or_num_opt (sec_count sec) 0,
      ms_rows =
        map (\<lambda>entry.
               \<lparr>row_href = or_str (entry_url entry) ''#'',
                row_rank = entry_rank entry,
                row_title = or_str (entry_title entry) NO_TITLE\<rparr>)
          (List.map_filter (\<lambda>e. e) (or_list (sec_entries sec) []))\<rparr>"

definition renderMomoyuParsed ::
  "js_error \<Rightarrow> (string \<Rightarrow> string option) \<Rightarrow> follow_state \<Rightarrow> follow_page
     \<Rightarrow> follow_page \<times> js_error option" where
  "renderMomoyuParsed nullError fmtDate st pg =
     (let secs = (case f_momoyuParsed st of None \<Rightarrow> [] | Some doc \<Rightarrow> or_list (sections doc) []);
          pg0 = pg\<lparr>fp_momoyuCount := BoardCount (length secs), fp_momoyuList := FCleared\<rparr>
      in if secs = []
         then (case renderSection fmtDate (f_momoyuItems st) NO_MOMOYU_DATA of
                 (content, cnt) \<Rightarrow> (pg0\<lparr>fp_momoyuList := content, fp_momoyuCount := cnt\<rparr>, None))
         else (let meta =
                     (case f_momoyuParsed st of
                        None \<Rightarrow> MOMOYU_HEADING
                      | Some doc \<Rightarrow>
                          if or_str (item_title doc) [] = [] then MOMOYU_HEADING
                          else or_str (item_title doc) [] @
                               (if or_str (pubDate doc) [] = [] then []
                                else MIDDLE_DOT @ or_str (pubDate doc) []));
                   rendered = takeWhile section_ok secs;
                   pg1 = pg0\<lparr>fp_momoyuList :=
                             FMomoyu meta
                               (map momoyu_section_view (List.map_filter (\<lambda>s. s) rendered))\<rparr>
               in if length rendered = length secs then (pg1, None) else (pg1, Some nullError)))"

text \<open>
  \<open>init\<close> of the follow page script. Its \<open>try\<close> block holds the load, the assignments
  to the state and the two renderers; the \<open>catch\<close> clause (\<open>follow_catch\<close>) writes the
  failure label and assigns the message, between the tags of a \<open>div\<close>, to the
  \<open>innerHTML\<close> of both lists. It does not touch the state.
\<close>

definition follow_catch :: "js_error \<Rightarrow> follow_page \<Rightarrow> follow_page" where
  "follow_catch err pg =
     pg\<lparr>fp_updatedAt := DATA_LOAD_FAILED,
        fp_followOpmlList := FMarkup (EMPTY_DIV_OPEN @ message err @ EMPTY_DIV_CLOSE),
        fp_momoyuList := FMarkup (EMPTY_DIV_OPEN @ message err @ EMPTY_DIV_CLOSE)\<rparr>"

definition init_follow ::
  "js_error \<Rightarrow> (string \<Rightarrow> string option) \<Rightarrow> nat \<Rightarrow> network \<Rightarrow> follow_state \<Rightarrow> follow_page
     \<Rightarrow> follow_state \<times> follow_page \<times> network" where
  "init_follow nullError fmtDate now net st pg =
     (case loadNewsData net now of
        (Inl err, net') \<Rightarrow> (st, follow_catch err pg, net')
      | (Inr p, net') \<Rightarrow>
          (let st1 = st\<lparr>f_followOpmlItems := or_list (follow_opml_items p) [],
                        f_followOpmlGroups := or_list (follow_opml_groups p) [],
                        f_momoyuItems := or_list (momoyu_items p) [],
                        f_momoyuParsed := momoyu_parsed p,
                        f_generatedAt := generated_at p\<rparr>
           in case renderFollowOpmlGroups nullError fmtDate st1 pg of
                (pg1, Some err) \<Rightarrow> (st1, follow_catch err pg1, net')
              | (pg1, None) \<Rightarrow>
                  (case renderMomoyuParsed nullError fmtDate st1 pg1 of
                     (pg2, Some err) \<Rightarrow> (st1, follow_catch err pg2, net')
                   | (pg2, None) \<Rightarrow>
                       (st1,
                        pg2\<lparr>fp_updatedAt :=
                              UPDATED_PREFIX @ fmtTime fmtDate (f_generatedAt st1)\<rparr>,
                        net'))))"

section \<open>The Vue application\<close>

text \<open>
  The data of the application, \<open>mounted\<close> and the computed texts. The template shows
  the texts through text bindings.
\<close>

record vue_data =
  followItems :: "news_item list"
  followGroups :: "follow_group option list"
  momoyuItems :: "news_item list"
  momoyuParsed :: "momoyu_doc option"
  vue_generatedAt :: "string option"
  loadError :: string

definition vue_data0 :: vue_data where
  "vue_data0 = \<lparr>followItems = [], followGroups = [], momoyuItems = [], momoyuParsed = None,
     vue_generatedAt = None, loadError = []\<rparr>"

definition mounted :: "nat \<Rightarrow> network \<Rightarrow> vue_data \<Rightarrow> vue_data \<times> network" where
  "mounted now net d =
     (case loadNewsData net now of
        (Inr p, net') \<Rightarrow>
          (d\<lparr>followItems := or_list (follow_opml_items p) [],
             followGroups := or_list (follow_opml_groups p) [],
             momoyuItems := or_list (momoyu_items p) [],
             momoyuParsed := momoyu_parsed p,
             vue_generatedAt := or_opt (generated_at p) None,
             loadError := []\<rparr>, net')
      | (Inl err, net') \<Rightarrow>
          (d\<lparr>loadError := (if message err \<noteq> [] then message err else DATA_LOAD_FAILED),
             followItems := [],
             followGroups := [],
             momoyuItems := [],
             momoyuParsed := None,
             vue_generatedAt := None\<rparr>, net'))"

definition momoyuSections :: "vue_data \<Rightarrow> momoyu_section option list" where
  "momoyuSections d = (case momoyuParsed d of None \<Rightarrow> [] | Some doc \<Rightarrow> or_list (sections doc) [])"

definition updatedLabel :: "(string \<Rightarrow> string option) \<Rightarrow> vue_data \<Rightarrow> string" where
  "updatedLabel fmtDate d =
     (if loadError d \<noteq> [] then DATA_LOAD_FAILED
      else UPDATED_PREFIX @ fmtTime fmtDate (vue_generatedAt d))"

definition followEmptyText :: "vue_data \<Rightarrow> string" where
  "followEmptyText d = (if loadError d \<noteq> [] then loadError d else NO_FOLLOW_DATA)"

definition momoyuEmptyText :: "vue_data \<Rightarrow> string" where
  "momoyuEmptyText d = (if loadError d \<noteq> [] then loadError d else NO_MOMOYU_DATA)"

section \<open>Payloads and networks to run the definitions\<close>

definition payload0 :: payload where
  "payload0 = \<lparr>items_ai = None, payload_items = None, items_all = None, items_all_raw = None,
     total_items = None, total_items_raw = None, total_items_all_mode = None,
     follow_opml_items = None, follow_opml_groups = None, momoyu_items = None,
     momoyu_parsed = None, generated_at = None\<rparr>"

definition payload_ab :: payload where
  "payload_ab = payload0\<lparr>items_ai := Some [item_a, item_b]\<rparr>"

definition net_of :: "js_error + response \<Rightarrow> network" where
  "net_of r = \<lparr>answer = (\<lambda>u. r), requests = []\<rparr>"

definition store0 :: storage where
  "store0 = \<lparr>entries = Map.empty, read_blocked = False, write_blocked = False\<rparr>"

definition page0 :: page where
  "page0 = \<lparr>updatedAt = [], newsList = ItemNodes [], resultCount = 0,
     followOpmlList = ItemNodes [], followOpmlCount = 0, modeHint = 0, siteOptions = []\<rparr>"

definition follow_page0 :: follow_page where
  "follow_page0 = \<lparr>fp_updatedAt = [], fp_followOpmlList = FCleared,
     fp_followOpmlCount = ItemCount 0, fp_momoyuList = FCleared,
     fp_momoyuCount = ItemCount 0\<rparr>"

definition net_500 :: network where
  "net_500 = net_of (Inr \<lparr>status = 500, body_json = Inr payload_ab\<rparr>)"

text \<open>
  Stand-ins for \<open>JSON.parse\<close> and \<open>JSON.stringify\<close> to run the definitions with.
  \<open>parse_demo\<close> agrees with \<open>JSON.parse\<close> on the three texts it accepts;
  \<open>stringify_demo\<close> agrees with \<open>JSON.stringify\<close> on an array that has no elements
  (its named properties are not written) and on the object \<open>{"site|X": true}\<close>.
\<close>

definition site_x_text :: string where
  "site_x_text = ''{'' @ [CHR 0x22] @ ''site|X'' @ [CHR 0x22] @ '':true}''"

definition parse_demo :: "string \<Rightarrow> js_error + jsval" where
  "parse_demo text =
     (if text = ''[]'' then Inr (JObj ArrayObject Map.empty)
      else if text = ''{}'' then Inr (JObj PlainObject Map.empty)
      else if text = site_x_text then Inr (JObj PlainObject [''site|X'' \<mapsto> JBool True])
      else Inl (JsError ''SyntaxError''))"

definition stringify_demo :: "jsval \<Rightarrow> js_error + string" where
  "stringify_demo v = (case v of JObj ArrayObject m \<Rightarrow> Inr ''[]'' | _ \<Rightarrow> Inr site_x_text)"

definition store_array :: storage where
  "store_array = \<lparr>entries = [ACCORDION_STORAGE_KEY \<mapsto> ''[]''], read_blocked = False,
     write_blocked = False\<rparr>"

text \<open>
  Two failures of the load. The first is a response with status 200 whose body is an
  HTML page: \<open>res.json()\<close> rejects, and the message of the error quotes the start of
  the body. The second is a payload in which an element of \<open>follow_opml_groups\<close> is
  \<open>null\<close>.
\<close>

definition doctype_message :: string where
  "doctype_message =
     ''Unexpected token '' @ [CHR 0x27] @ ''<'' @ [CHR 0x27] @ '', '' @ [CHR 0x22] @
     ''<!DOCTYPE '' @ [CHR 0x22] @ ''... is not valid JSON''"

definition net_html :: network where
  "net_html = net_of (Inr \<lparr>status = 200, body_json = Inl (JsError doctype_message)\<rparr>)"

definition payload_null_group :: payload where
  "payload_null_group =
     payload0\<lparr>follow_opml_items := Some [item_a], follow_opml_groups := Some [None]\<rparr>"

definition net_null_group :: network where
  "net_null_group = net_of (Inr \<lparr>status = 200, body_json = Inr payload_null_group\<rparr>)"

definition null_error :: js_error where
  "null_error = JsError ''Cannot read properties of null''"

section \<open>Facts about the string built-ins\<close>

lemma or_str_simps:
  "or_str None d = d"
  "or_str (Some s) d = (if s = [] then d else s)"
  by (simp_all add: or_str_def)

lemma js_includes_suffix: "js_includes (p @ s) s"
  by (simp add: js_includes_def sublist_appendI)

lemma loadNewsData_failed_cases:
  assumes "fst (loadNewsData net now) = Inl err"
  obtains net' where "loadNewsData net now = (Inl err, net')"
  using assms by (cases "loadNewsData net now") auto

lemma toLowerCase_Nil: "toLowerCase lowerCase [] = []"
  by (simp add: toLowerCase_def)

lemma WHITE_SPACE_nonempty: "w \<in> set WHITE_SPACE \<Longrightarrow> w \<noteq> []"
  by (auto simp: WHITE_SPACE_def)

lemma WHITE_SPACE_prefix_free:
  "\<forall>v\<in>set WHITE_SPACE. \<forall>w\<in>set WHITE_SPACE. prefix v w \<longrightarrow> v = w"
  by code_simp

lemma strip_white_space_first:
  assumes "w \<in> set WHITE_SPACE"
  shows "strip_prefixes WHITE_SPACE (w @ r) = strip_prefixes WHITE_SPACE r"
proof -
  from assms have ne: "w \<noteq> []" by (rule WHITE_SPACE_nonempty)
  then obtain c cs where wr: "w @ r = c # cs"
    by (cases w) auto
  have ex: "\<exists>v\<in>set WHITE_SPACE. v \<noteq> [] \<and> prefix v (c # cs)"
    using assms ne wr by (metis prefixI)
  then obtain v where f: "find (\<lambda>w. w \<noteq> [] \<and> prefix w (c # cs)) WHITE_SPACE = Some v"
    by (cases "find (\<lambda>w. w \<noteq> [] \<and> prefix w (c # cs)) WHITE_SPACE")
       (auto simp: find_None_iff)
  then have v: "v \<in> set WHITE_SPACE" "prefix v (c # cs)"
    by (auto simp: find_Some_iff)
  have "prefix w (c # cs)" using wr by (metis prefixI)
  with v(2) have "prefix v w \<or> prefix w v"
    by (rule prefix_same_cases)
  with WHITE_SPACE_prefix_free v(1) assms have "v = w" by blast
  have "drop (length w - 1) cs = r"
  proof -
    from ne wr have "cs = tl w @ r" by (cases w) auto
    then show ?thesis by simp
  qed
  with f \<open>v = w\<close> wr show ?thesis by simp
qed

lemma strip_white_space_concat:
  "set ws \<subseteq> set WHITE_SPACE \<Longrightarrow> strip_prefixes WHITE_SPACE (concat ws) = []"
  by (induction ws) (simp_all add: strip_white_space_first)

lemma trim_white_space_only: "set ws \<subseteq> set WHITE_SPACE \<Longrightarrow> trim (concat ws) = []"
  by (simp add: trim_def strip_white_space_concat)

text \<open>The lengths of the text constants, in bytes.\<close>

lemma text_constant_lengths:
  "length NO_TITLE = 9"
  "length UNKNOWN_TIME = 12"
  "length SECTION_LABEL = 8"
  "length ORIGIN_LABEL = 8"
  "length SUBSCRIPTION = 6"
  "length NO_RESULTS = 36"
  "length NO_FOLLOW_DATA = 28"
  "length NO_MOMOYU_DATA = 27"
  "length UPDATED_PREFIX = 15"
  "length LOAD_FAILED_PREFIX = 31"
  "length NEWS_LOAD_FAILED = 24"
  "length DATA_LOAD_FAILED = 18"
  "length UNNAMED_SUBSCRIPTION = 15"
  "length UNNAMED_SECTION = 15"
  "length MOMOYU_HEADING = 22"
  "length MIDDLE_DOT = 4"
  "length UNSPECIFIED_SOURCE = 9"
  "length EMPTY_DIV_OPEN = 19"
  "length EMPTY_DIV_CLOSE = 6"
  by (simp_all add: NO_TITLE_def UNKNOWN_TIME_def SECTION_LABEL_def ORIGIN_LABEL_def SUBSCRIPTION_def NO_RESULTS_def
      NO_FOLLOW_DATA_def NO_MOMOYU_DATA_def UPDATED_PREFIX_def LOAD_FAILED_PREFIX_def NEWS_LOAD_FAILED_def DATA_LOAD_FAILED_def
      UNNAMED_SUBSCRIPTION_def UNNAMED_SECTION_def MOMOYU_HEADING_def MIDDLE_DOT_def UNSPECIFIED_SOURCE_def EMPTY_DIV_OPEN_def EMPTY_DIV_CLOSE_def)

section \<open>Facts about sorting\<close>

lemma mset_insort_cmp: "mset (insort_cmp cmp x ys) = add_mset x (mset ys)"
  by (induction ys) auto

lemma mset_array_sort: "mset (array_sort cmp xs) = mset xs"
  by (induction xs) (auto simp: array_sort_def mset_insort_cmp)

lemma set_insort_cmp: "set (insort_cmp cmp x ys) = insert x (set ys)"
  by (induction ys) auto

lemma set_array_sort: "set (array_sort cmp xs) = set xs"
  by (induction xs) (auto simp: array_sort_def set_insort_cmp)

lemma consistent_sgn: "consistent_comparator cmp \<Longrightarrow> sgn (cmp y x) = - sgn (cmp x y)"
  unfolding consistent_comparator_def by blast

lemma consistent_flip_pos:
  assumes "consistent_comparator cmp" and "cmp x y > 0"
  shows "cmp y x < 0"
proof -
  from assms(1) have "sgn (cmp y x) = - sgn (cmp x y)"
    by (rule consistent_sgn)
  moreover from assms(2) have "sgn (cmp x y) = 1" by simp
  ultimately have "sgn (cmp y x) = - 1" by simp
  then show ?thesis by (simp only: sgn_1_neg)
qed

lemma consistent_total: "consistent_comparator cmp \<Longrightarrow> cmp x y \<le> 0 \<or> cmp y x \<le> 0"
  using consistent_flip_pos [of cmp x y] by fastforce

lemma consistent_trans:
  "consistent_comparator cmp \<Longrightarrow> cmp x y \<le> 0 \<Longrightarrow> cmp y z \<le> 0 \<Longrightarrow> cmp x z \<le> 0"
  unfolding consistent_comparator_def by blast

lemma consistent_zero_sym: "consistent_comparator cmp \<Longrightarrow> cmp x y = 0 \<Longrightarrow> cmp y x = 0"
proof -
  assume "consistent_comparator cmp" "cmp x y = 0"
  then have "sgn (cmp y x) = 0" using consistent_sgn [of cmp x y] by simp
  then show ?thesis by (simp only: sgn_0_0)
qed

lemma sorted_insort_cmp:
  assumes "consistent_comparator cmp" and "sorted_wrt (\<lambda>a b. cmp a b \<le> 0) ys"
  shows "sorted_wrt (\<lambda>a b. cmp a b \<le> 0) (insort_cmp cmp x ys)"
  using assms(2)
proof (induction ys)
  case Nil
  then show ?case by simp
next
  case (Cons y ys)
  show ?case
  proof (cases "cmp x y \<le> 0")
    case True
    with Cons.prems show ?thesis
      by (auto intro: consistent_trans [OF assms(1)])
  next
    case False
    then have "cmp y x \<le> 0" using consistent_total [OF assms(1), of x y] by simp
    with False Cons show ?thesis
      by (auto simp: set_insort_cmp)
  qed
qed

lemma sorted_array_sort:
  "consistent_comparator cmp \<Longrightarrow> sorted_wrt (\<lambda>a b. cmp a b \<le> 0) (array_sort cmp xs)"
  by (induction xs) (auto simp: array_sort_def sorted_insort_cmp)

lemma filter_insort_cmp_tie:
  assumes "consistent_comparator cmp"
  shows "filter (\<lambda>h. cmp g h = 0) (insort_cmp cmp x ys) =
         (if cmp g x = 0 then x # filter (\<lambda>h. cmp g h = 0) ys else filter (\<lambda>h. cmp g h = 0) ys)"
proof (induction ys)
  case Nil
  then show ?case by simp
next
  case (Cons y ys)
  show ?case
  proof (cases "cmp x y \<le> 0")
    case True
    then show ?thesis by simp
  next
    case False
    have ny: "cmp g y \<noteq> 0" if "cmp g x = 0"
    proof
      assume gy: "cmp g y = 0"
      from that have "cmp x g \<le> 0" using consistent_zero_sym [OF assms, of g x] by simp
      moreover from gy have "cmp g y \<le> 0" by simp
      ultimately have "cmp x y \<le> 0" by (rule consistent_trans [OF assms])
      with False show False by simp
    qed
    show ?thesis
    proof (cases "cmp g x = 0")
      case True
      with False ny Cons.IH show ?thesis by simp
    next
      case gx: False
      with False Cons.IH show ?thesis by simp
    qed
  qed
qed

lemma stable_array_sort:
  "consistent_comparator cmp \<Longrightarrow>
     filter (\<lambda>h. cmp g h = 0) (array_sort cmp xs) = filter (\<lambda>h. cmp g h = 0) xs"
  by (induction xs) (auto simp: array_sort_def filter_insort_cmp_tie)

lemma consistent_count_then_name:
  assumes "consistent_comparator lc"
  shows "consistent_comparator (count_then_name cnt nm lc)"
  unfolding consistent_comparator_def
proof (intro conjI allI impI)
  fix a b
  have flip: "sgn (lc (nm b) (nm a)) = - sgn (lc (nm a) (nm b))"
    using assms by (rule consistent_sgn)
  show "sgn (count_then_name cnt nm lc b a) = - sgn (count_then_name cnt nm lc a b)"
  proof (cases "cnt a = cnt b")
    case True
    with flip show ?thesis by (simp add: count_then_name_def)
  next
    case False
    then have "cnt a < cnt b \<or> cnt b < cnt a" by arith
    then show ?thesis
    proof
      assume "cnt a < cnt b"
      then show ?thesis by (simp add: count_then_name_def)
    next
      assume "cnt b < cnt a"
      then show ?thesis by (simp add: count_then_name_def)
    qed
  qed
next
  fix a b c
  assume "count_then_name cnt nm lc a b \<le> 0" "count_then_name cnt nm lc b c \<le> 0"
  then show "count_then_name cnt nm lc a c \<le> 0"
    using consistent_trans [OF assms, of "nm a" "nm b" "nm c"]
    by (auto simp: count_then_name_def Let_def split: if_splits)
qed

lemma count_then_name_le:
  "count_then_name cnt nm lc a b \<le> 0 \<longleftrightarrow>
     cnt a > cnt b \<or> (cnt a = cnt b \<and> lc (nm a) (nm b) \<le> 0)"
  by (auto simp: count_then_name_def Let_def)

lemma count_then_name_zero:
  "count_then_name cnt nm lc a b = 0 \<longleftrightarrow> cnt a = cnt b \<and> lc (nm a) (nm b) = 0"
  by (auto simp: count_then_name_def Let_def)

lemma lex_compare_sgn: "sgn (lex_compare b a) = - sgn (lex_compare a b)"
  by (induction a b rule: lex_compare.induct) simp_all

lemma lex_compare_trans:
  "lex_compare a b \<le> 0 \<Longrightarrow> lex_compare b c \<le> 0 \<Longrightarrow> lex_compare a c \<le> 0"
proof (induction a b arbitrary: c rule: lex_compare.induct)
  case 1
  then show ?case by simp
next
  case (2 y ys)
  then show ?case by (cases c) simp_all
next
  case (3 x xs)
  then show ?case by simp
next
  case (4 x xs y ys)
  show ?case
  proof (cases c)
    case Nil
    with 4 show ?thesis by simp
  next
    case (Cons z zs)
    with "4.prems" "4.IH" [of zs] show ?thesis
      by (auto split: if_splits)
  qed
qed

lemma consistent_lex_compare: "consistent_comparator lex_compare"
  unfolding consistent_comparator_def using lex_compare_sgn lex_compare_trans by blast

section \<open>Facts about the grouping maps\<close>

lemma encounter_order_snoc:
  "encounter_order (ks @ [k]) = (if k \<in> set ks then encounter_order ks else encounter_order ks @ [k])"
  by (simp add: encounter_order_def)

lemma distinct_encounter_order: "distinct (encounter_order ks)"
  by (simp add: encounter_order_def)

lemma update_absent: "map_of m k = None \<Longrightarrow> AList.update k v m = m @ [(k, v)]"
  by (induction m) (auto split: if_splits)

lemma concat_update_absent:
  "map_of m k = None \<Longrightarrow>
     concat (map (\<lambda>e. f (snd e)) (AList.update k v m)) = concat (map (\<lambda>e. f (snd e)) m) @ f v"
  by (simp add: update_absent)

lemma mset_concat_update_present:
  "map_of m k = Some old \<Longrightarrow> f new = f old @ ys \<Longrightarrow>
     mset (concat (map (\<lambda>e. f (snd e)) (AList.update k new m))) =
     mset (concat (map (\<lambda>e. f (snd e)) m)) + mset ys"
  by (induction m) (auto split: if_splits)

lemma map_of_None_keys: "map_of m k = None \<longleftrightarrow> k \<notin> set (map fst m)"
  by (simp add: map_of_eq_None_iff)

subsection \<open>The map of \<open>groupBySource\<close>\<close>

lemma source_group_map_snoc:
  "source_group_map (items @ [x]) = source_group_step (source_group_map items) x"
  by (simp add: source_group_map_def)

lemma source_group_step_map_of:
  "map_of (source_group_step m item) =
     (map_of m)(source_key item \<mapsto>
        (case map_of m (source_key item) of None \<Rightarrow> [item] | Some xs \<Rightarrow> xs @ [item]))"
  by (cases "map_of m (source_key item)")
     (simp_all add: source_group_step_def Let_def update_conv')

lemma source_group_step_keys:
  "map fst (source_group_step m item) =
     (if source_key item \<in> set (map fst m) then map fst m else map fst m @ [source_key item])"
proof (cases "map_of m (source_key item)")
  case None
  then have "source_key item \<notin> set (map fst m)" by (simp add: map_of_None_keys)
  with None show ?thesis
    by (simp add: source_group_step_def Let_def update_conv' update_keys)
next
  case (Some xs)
  then have "source_key item \<in> set (map fst m)"
    using map_of_None_keys [of m "source_key item"] by simp
  with Some show ?thesis
    by (simp add: source_group_step_def Let_def update_keys)
qed

lemma source_group_step_mset:
  "mset (concat (map snd (source_group_step m item))) =
     add_mset item (mset (concat (map snd m)))"
proof (cases "map_of m (source_key item)")
  case None
  then have m1: "AList.update (source_key item) [] m = m @ [(source_key item, [])]"
    by (rule update_absent)
  have "map_of (m @ [(source_key item, [])]) (source_key item) = Some []"
    using None by (simp add: map_add_def)
  then have "mset (concat (map (\<lambda>e. id (snd e))
        (AList.update (source_key item) ([] @ [item]) (m @ [(source_key item, [])])))) =
      mset (concat (map (\<lambda>e. id (snd e)) (m @ [(source_key item, [])]))) + mset [item]"
    by (rule mset_concat_update_present) simp
  with None m1 show ?thesis
    by (simp add: source_group_step_def Let_def map_add_def)
next
  case (Some xs)
  then have "mset (concat (map (\<lambda>e. id (snd e)) (AList.update (source_key item) (xs @ [item]) m))) =
      mset (concat (map (\<lambda>e. id (snd e)) m)) + mset [item]"
    by (rule mset_concat_update_present) simp
  with Some show ?thesis
    by (simp add: source_group_step_def Let_def)
qed

lemma source_group_map_mset: "mset (concat (map snd (source_group_map items))) = mset items"
  by (induction items rule: rev_induct)
     (simp_all add: source_group_map_snoc source_group_step_mset, simp add: source_group_map_def)

lemma source_group_map_keys:
  "map fst (source_group_map items) = encounter_order (map source_key items)"
proof (induction items rule: rev_induct)
  case Nil
  show ?case by (simp add: source_group_map_def encounter_order_def)
next
  case (snoc x xs)
  have "set (map fst (source_group_map xs)) = source_key ` set xs"
    by (simp add: snoc.IH encounter_order_def)
  with snoc show ?case
    by (simp add: source_group_map_snoc source_group_step_keys encounter_order_snoc)
qed

lemma source_group_map_of:
  "map_of (source_group_map items) k =
     (if \<exists>x\<in>set items. source_key x = k
      then Some (filter (\<lambda>x. source_key x = k) items) else None)"
proof (induction items rule: rev_induct)
  case Nil
  show ?case by (simp add: source_group_map_def)
next
  case (snoc x xs)
  then show ?case
    by (auto simp: source_group_map_snoc source_group_step_map_of filter_empty_conv)
qed

subsection \<open>The site map of \<open>renderGroupedBySiteAndSource\<close>\<close>

lemma site_group_map_snoc:
  "site_group_map (items @ [x]) = site_group_step (site_group_map items) x"
  by (simp add: site_group_map_def)

lemma site_group_step_items:
  "map_option site_items (map_of (site_group_step m item) k) =
     (if k = site_id item
      then Some (case map_of m k of None \<Rightarrow> [item] | Some e \<Rightarrow> site_items e @ [item])
      else map_option site_items (map_of m k))"
  by (cases "map_of m (site_id item)")
     (simp_all add: site_group_step_def Let_def update_conv')

lemma site_group_step_keys:
  "map fst (site_group_step m item) =
     (if site_id item \<in> set (map fst m) then map fst m else map fst m @ [site_id item])"
proof (cases "map_of m (site_id item)")
  case None
  then have "site_id item \<notin> set (map fst m)" by (simp add: map_of_None_keys)
  with None show ?thesis
    by (simp add: site_group_step_def Let_def update_conv' update_keys)
next
  case (Some e)
  then have "site_id item \<in> set (map fst m)"
    using map_of_None_keys [of m "site_id item"] by simp
  with Some show ?thesis
    by (simp add: site_group_step_def Let_def update_keys)
qed

lemma site_group_step_mset:
  "mset (concat (map (\<lambda>e. site_items (snd e)) (site_group_step m item))) =
     add_mset item (mset (concat (map (\<lambda>e. site_items (snd e)) m)))"
proof (cases "map_of m (site_id item)")
  case None
  let ?e = "\<lparr>siteName = or_str (Some (site_name item)) (site_id item), site_items = []\<rparr>"
  from None have m1: "AList.update (site_id item) ?e m = m @ [(site_id item, ?e)]"
    by (rule update_absent)
  have "map_of (m @ [(site_id item, ?e)]) (site_id item) = Some ?e"
    using None by (simp add: map_add_def)
  then have "mset (concat (map (\<lambda>e. site_items (snd e))
        (AList.update (site_id item) (?e\<lparr>site_items := site_items ?e @ [item]\<rparr>)
           (m @ [(site_id item, ?e)])))) =
      mset (concat (map (\<lambda>e. site_items (snd e)) (m @ [(site_id item, ?e)]))) + mset [item]"
    by (rule mset_concat_update_present) simp
  with None m1 show ?thesis
    by (simp add: site_group_step_def Let_def map_add_def)
next
  case (Some e)
  then have "mset (concat (map (\<lambda>e. site_items (snd e))
        (AList.update (site_id item) (e\<lparr>site_items := site_items e @ [item]\<rparr>) m))) =
      mset (concat (map (\<lambda>e. site_items (snd e)) m)) + mset [item]"
    by (rule mset_concat_update_present) simp
  with Some show ?thesis
    by (simp add: site_group_step_def Let_def)
qed

lemma site_group_map_mset:
  "mset (concat (map (\<lambda>e. site_items (snd e)) (site_group_map items))) = mset items"
proof (induction items rule: rev_induct)
  case Nil
  show ?case by (simp add: site_group_map_def)
next
  case (snoc x xs)
  then show ?case by (simp add: site_group_map_snoc site_group_step_mset)
qed

lemma site_group_map_keys:
  "map fst (site_group_map items) = encounter_order (map site_id items)"
proof (induction items rule: rev_induct)
  case Nil
  show ?case by (simp add: site_group_map_def encounter_order_def)
next
  case (snoc x xs)
  have "set (map fst (site_group_map xs)) = site_id ` set xs"
    by (simp add: snoc.IH encounter_order_def)
  with snoc show ?case
    by (simp add: site_group_map_snoc site_group_step_keys encounter_order_snoc)
qed

lemma site_group_map_items:
  "map_option site_items (map_of (site_group_map items) k) =
     (if \<exists>x\<in>set items. site_id x = k
      then Some (filter (\<lambda>x. site_id x = k) items) else None)"
proof (induction items rule: rev_induct)
  case Nil
  show ?case by (simp add: site_group_map_def)
next
  case (snoc x xs)
  show ?case
  proof (cases "k = site_id x")
    case False
    with snoc show ?thesis
      by (auto simp: site_group_map_snoc site_group_step_items)
  next
    case True
    show ?thesis
    proof (cases "map_of (site_group_map xs) k")
      case None
      with snoc have "\<not> (\<exists>y\<in>set xs. site_id y = k)"
        by (auto split: if_splits)
      then have "filter (\<lambda>y. site_id y = k) xs = []"
        by (auto simp: filter_empty_conv)
      with None True show ?thesis
        by (simp add: site_group_map_snoc site_group_step_items)
    next
      case (Some e)
      with snoc have "site_items e = filter (\<lambda>y. site_id y = k) xs"
        by (auto split: if_splits)
      with Some True show ?thesis
        by (simp add: site_group_map_snoc site_group_step_items)
    qed
  qed
qed

section \<open>Facts about the sorted groups\<close>

lemma sum_list_map_mset_cong:
  fixes f :: "'a \<Rightarrow> 'b::comm_monoid_add"
  assumes "mset xs = mset ys"
  shows "sum_list (map f xs) = sum_list (map f ys)"
proof -
  have "sum_list (map f xs) = sum_mset (image_mset f (mset xs))"
    by (simp add: sum_mset_sum_list [symmetric])
  also have "\<dots> = sum_mset (image_mset f (mset ys))"
    by (simp add: assms)
  also have "\<dots> = sum_list (map f ys)"
    by (simp add: sum_mset_sum_list [symmetric])
  finally show ?thesis .
qed

lemma sum_list_map_array_sort:
  fixes f :: "'a \<Rightarrow> 'b::comm_monoid_add"
  shows "sum_list (map f (array_sort cmp xs)) = sum_list (map f xs)"
  by (rule sum_list_map_mset_cong) (rule mset_array_sort)

lemma mset_concat_map_array_sort:
  "mset (concat (map f (array_sort cmp xs))) = mset (concat (map f xs))"
  using sum_list_map_array_sort [of "\<lambda>x. mset (f x)" cmp xs]
  by (simp add: mset_concat comp_def)

lemma distinct_map_array_sort:
  "distinct (map f (array_sort cmp xs)) = distinct (map f xs)"
  by (rule mset_eq_imp_distinct_iff) (simp add: mset_array_sort)

lemma length_concat_sum: "sum_list (map (\<lambda>g. length (f g)) xs) = length (concat (map f xs))"
  by (simp add: length_concat comp_def)

lemma source_group_map_distinct: "distinct (map fst (source_group_map items))"
  by (simp add: source_group_map_keys distinct_encounter_order)

lemma source_group_map_entry:
  assumes "g \<in> set (source_group_map items)"
  shows "snd g = filter (\<lambda>x. source_key x = fst g) items"
proof -
  from assms have "(fst g, snd g) \<in> set (source_group_map items)"
    by simp
  then have "map_of (source_group_map items) (fst g) = Some (snd g)"
    by (rule map_of_is_SomeI [OF source_group_map_distinct])
  then show ?thesis
    by (simp add: source_group_map_of split: if_splits)
qed

lemma site_group_map_distinct: "distinct (map fst (site_group_map items))"
  by (simp add: site_group_map_keys distinct_encounter_order)

lemma site_group_map_entry:
  assumes "g \<in> set (site_group_map items)"
  shows "site_items (snd g) = filter (\<lambda>x. site_id x = fst g) items"
proof -
  from assms have "(fst g, snd g) \<in> set (site_group_map items)"
    by simp
  then have "map_of (site_group_map items) (fst g) = Some (snd g)"
    by (rule map_of_is_SomeI [OF site_group_map_distinct])
  then have "map_option site_items (map_of (site_group_map items) (fst g)) = Some (site_items (snd g))"
    by simp
  then show ?thesis
    by (simp add: site_group_map_items split: if_splits)
qed

lemma groupBySource_sum: "sum_list (map (\<lambda>g. length (snd g)) (groupBySource lc items)) = length items"
proof -
  have "sum_list (map (\<lambda>g. length (snd g)) (groupBySource lc items)) =
        sum_list (map (\<lambda>g. length (snd g)) (source_group_map items))"
    unfolding groupBySource_def by (rule sum_list_map_array_sort)
  also have "\<dots> = length (concat (map snd (source_group_map items)))"
    by (rule length_concat_sum)
  also have "\<dots> = size (mset (concat (map snd (source_group_map items))))"
    by simp
  also have "\<dots> = length items"
    by (simp only: source_group_map_mset size_mset)
  finally show ?thesis .
qed

lemma groupBySource_mset: "mset (concat (map snd (groupBySource lc items))) = mset items"
  unfolding groupBySource_def
  by (simp only: mset_concat_map_array_sort source_group_map_mset)

lemma groupBySource_distinct: "distinct (map fst (groupBySource lc items))"
  unfolding groupBySource_def
  by (simp only: distinct_map_array_sort source_group_map_distinct)

lemma groupBySource_entry:
  "g \<in> set (groupBySource lc items) \<Longrightarrow> snd g = filter (\<lambda>x. source_key x = fst g) items"
  unfolding groupBySource_def
  by (simp only: set_array_sort source_group_map_entry)

lemma site_groups_sum:
  "sum_list (map (\<lambda>g. length (site_items (snd g))) (site_groups lc items)) = length items"
proof -
  have "sum_list (map (\<lambda>g. length (site_items (snd g))) (site_groups lc items)) =
        sum_list (map (\<lambda>g. length (site_items (snd g))) (site_group_map items))"
    unfolding site_groups_def by (rule sum_list_map_array_sort)
  also have "\<dots> = length (concat (map (\<lambda>g. site_items (snd g)) (site_group_map items)))"
    by (rule length_concat_sum)
  also have "\<dots> = size (mset (concat (map (\<lambda>g. site_items (snd g)) (site_group_map items))))"
    by simp
  also have "\<dots> = length items"
    by (simp only: site_group_map_mset size_mset)
  finally show ?thesis .
qed

lemma site_groups_mset:
  "mset (concat (map (\<lambda>g. site_items (snd g)) (site_groups lc items))) = mset items"
  unfolding site_groups_def
  by (simp only: mset_concat_map_array_sort site_group_map_mset)

lemma site_groups_distinct: "distinct (map fst (site_groups lc items))"
  unfolding site_groups_def
  by (simp only: distinct_map_array_sort site_group_map_distinct)

lemma site_groups_entry:
  "g \<in> set (site_groups lc items) \<Longrightarrow>
     site_items (snd g) = filter (\<lambda>x. site_id x = fst g) items"
  unfolding site_groups_def
  by (simp only: set_array_sort site_group_map_entry)

lemma site_groups_nested_sum:
  "sum_list (map (\<lambda>s. sum_list (map (\<lambda>g. length (snd g)) (groupBySource lc (site_items (snd s)))))
      (site_groups lc items)) = length items"
  by (simp only: groupBySource_sum site_groups_sum)

section \<open>Facts about the site statistics and the three comparators\<close>

lemma site_stat_rows_snoc_map:
  "foldl site_stat_step [] (items @ [x]) = site_stat_step (foldl site_stat_step [] items) x"
  by simp

lemma site_stat_step_keys:
  "map fst (site_stat_step m item) =
     (if site_id item \<in> set (map fst m) then map fst m else map fst m @ [site_id item])"
proof (cases "map_of m (site_id item)")
  case None
  then have "site_id item \<notin> set (map fst m)" by (simp add: map_of_None_keys)
  with None show ?thesis
    by (simp add: site_stat_step_def Let_def update_conv' update_keys)
next
  case (Some row)
  then have "site_id item \<in> set (map fst m)"
    using map_of_None_keys [of m "site_id item"] by simp
  with Some show ?thesis
    by (simp add: site_stat_step_def Let_def update_keys)
qed

lemma set_update_cases: "e \<in> set (AList.update k v m) \<Longrightarrow> e = (k, v) \<or> e \<in> set m"
  by (induction m) (auto split: if_splits)

lemma site_stat_step_id:
  assumes "\<forall>e\<in>set m. stat_site_id (snd e) = fst e"
    and "e \<in> set (site_stat_step m item)"
  shows "stat_site_id (snd e) = fst e"
proof (cases "map_of m (site_id item)")
  case None
  let ?r = "\<lparr>stat_site_id = site_id item, stat_site_name = site_name item,
              stat_count = 0, stat_raw_count = 0\<rparr>"
  from None have m1: "AList.update (site_id item) ?r m = m @ [(site_id item, ?r)]"
    by (rule update_absent)
  from None have look: "map_of (m @ [(site_id item, ?r)]) (site_id item) = Some ?r"
    by (simp add: map_add_def)
  from assms(2) None m1 look
  have "e \<in> set (AList.update (site_id item)
          (?r\<lparr>stat_count := stat_count ?r + 1, stat_raw_count := stat_raw_count ?r + 1\<rparr>)
          (m @ [(site_id item, ?r)]))"
    by (simp add: site_stat_step_def Let_def)
  then have "e = (site_id item,
        ?r\<lparr>stat_count := stat_count ?r + 1, stat_raw_count := stat_raw_count ?r + 1\<rparr>) \<or>
      e \<in> set (m @ [(site_id item, ?r)])"
    by (rule set_update_cases)
  with assms(1) show ?thesis by auto
next
  case (Some row)
  then have "(site_id item, row) \<in> set m" by (rule map_of_SomeD)
  with assms(1) have rid: "stat_site_id row = site_id item" by auto
  from assms(2) Some
  have "e \<in> set (AList.update (site_id item)
          (row\<lparr>stat_count := stat_count row + 1, stat_raw_count := stat_raw_count row + 1\<rparr>) m)"
    by (simp add: site_stat_step_def Let_def)
  then have "e = (site_id item,
        row\<lparr>stat_count := stat_count row + 1, stat_raw_count := stat_raw_count row + 1\<rparr>) \<or>
      e \<in> set m"
    by (rule set_update_cases)
  with assms(1) rid show ?thesis by auto
qed

lemma site_stat_map_id:
  "\<forall>e\<in>set (foldl site_stat_step [] items). stat_site_id (snd e) = fst e"
proof (induction items rule: rev_induct)
  case Nil
  show ?case by simp
next
  case (snoc x xs)
  then show ?case
    using site_stat_step_id [of "foldl site_stat_step [] xs" _ x] by auto
qed

lemma site_stat_map_keys:
  "map fst (foldl site_stat_step [] items) = encounter_order (map site_id items)"
proof (induction items rule: rev_induct)
  case Nil
  show ?case by (simp add: encounter_order_def)
next
  case (snoc x xs)
  have "set (map fst (foldl site_stat_step [] xs)) = site_id ` set xs"
    by (simp add: snoc.IH encounter_order_def)
  with snoc show ?case
    by (simp add: site_stat_step_keys encounter_order_snoc)
qed

lemma site_stat_rows_ids:
  "map stat_site_id (site_stat_rows items) = encounter_order (map site_id items)"
proof -
  have "map stat_site_id (site_stat_rows items) =
        map (\<lambda>e. stat_site_id (snd e)) (foldl site_stat_step [] items)"
    by (simp add: site_stat_rows_def comp_def)
  also have "\<dots> = map fst (foldl site_stat_step [] items)"
    using site_stat_map_id [of items] by (simp cong: map_cong)
  finally show ?thesis by (simp only: site_stat_map_keys)
qed

lemma site_stat_step_count:
  "map_option stat_count (map_of (site_stat_step m item) k) =
     (if k = site_id item
      then Some (case map_of m k of None \<Rightarrow> 1 | Some row \<Rightarrow> stat_count row + 1)
      else map_option stat_count (map_of m k))"
  by (cases "map_of m (site_id item)")
     (simp_all add: site_stat_step_def Let_def update_conv')

lemma site_stat_map_count:
  "map_option stat_count (map_of (foldl site_stat_step [] items) k) =
     (if \<exists>x\<in>set items. site_id x = k
      then Some (length (filter (\<lambda>x. site_id x = k) items)) else None)"
proof (induction items rule: rev_induct)
  case Nil
  show ?case by simp
next
  case (snoc x xs)
  show ?case
  proof (cases "k = site_id x")
    case False
    with snoc show ?thesis
      by (auto simp: site_stat_step_count)
  next
    case True
    show ?thesis
    proof (cases "map_of (foldl site_stat_step [] xs) k")
      case None
      with snoc have "\<not> (\<exists>y\<in>set xs. site_id y = k)"
        by (auto split: if_splits)
      then have "filter (\<lambda>y. site_id y = k) xs = []"
        by (auto simp: filter_empty_conv)
      with None True show ?thesis
        by (simp add: site_stat_step_count)
    next
      case (Some row)
      with snoc have "stat_count row = length (filter (\<lambda>y. site_id y = k) xs)"
        by (auto split: if_splits)
      with Some True show ?thesis
        by (simp add: site_stat_step_count)
    qed
  qed
qed

lemma site_stat_rows_count:
  assumes "row \<in> set (site_stat_rows items)"
  shows "stat_count row = length (filter (\<lambda>x. site_id x = stat_site_id row) items)"
proof -
  from assms obtain k where e: "(k, row) \<in> set (foldl site_stat_step [] items)"
    by (auto simp: site_stat_rows_def)
  with site_stat_map_id [of items] have k: "k = stat_site_id row" by auto
  have "distinct (map fst (foldl site_stat_step [] items))"
    by (simp add: site_stat_map_keys distinct_encounter_order)
  from map_of_is_SomeI [OF this e]
  have "map_option stat_count (map_of (foldl site_stat_step [] items) k) = Some (stat_count row)"
    by simp
  with k show ?thesis
    by (simp add: site_stat_map_count split: if_splits)
qed


lemma sorted_count_then_name:
  assumes "consistent_comparator lc"
  shows "sorted_wrt (\<lambda>a b. cnt b < cnt a \<or> (cnt a = cnt b \<and> lc (nm a) (nm b) \<le> 0))
           (array_sort (count_then_name cnt nm lc) xs)"
proof -
  have "sorted_wrt (\<lambda>a b. count_then_name cnt nm lc a b \<le> 0)
          (array_sort (count_then_name cnt nm lc) xs)"
    by (rule sorted_array_sort) (rule consistent_count_then_name [OF assms])
  then show ?thesis by (simp only: count_then_name_le)
qed

lemma stable_count_then_name:
  assumes "consistent_comparator lc"
  shows "filter (\<lambda>h. cnt g = cnt h \<and> lc (nm g) (nm h) = 0)
           (array_sort (count_then_name cnt nm lc) xs) =
         filter (\<lambda>h. cnt g = cnt h \<and> lc (nm g) (nm h) = 0) xs"
proof -
  have "filter (\<lambda>h. count_then_name cnt nm lc g h = 0)
          (array_sort (count_then_name cnt nm lc) xs) =
        filter (\<lambda>h. count_then_name cnt nm lc g h = 0) xs"
    by (rule stable_array_sort) (rule consistent_count_then_name [OF assms])
  then show ?thesis by (simp only: count_then_name_zero)
qed

lemma computeSiteStats_alt:
  "computeSiteStats lc items =
     array_sort (count_then_name stat_count stat_site_name lc) (site_stat_rows items)"
proof -
  have eq: "(\<lambda>a b. let d = int (stat_count b) - int (stat_count a)
               in if d \<noteq> 0 then d else lc (stat_site_name a) (stat_site_name b)) =
        count_then_name stat_count stat_site_name lc"
    by (intro ext) (simp add: count_then_name_def)
  show ?thesis by (simp only: computeSiteStats_def eq)
qed

lemma groupBySource_alt:
  "groupBySource lc items =
     array_sort (count_then_name (\<lambda>g. length (snd g)) fst lc) (source_group_map items)"
proof -
  have eq: "(\<lambda>a b. let d = int (length (snd b)) - int (length (snd a))
               in if d \<noteq> 0 then d else lc (fst a) (fst b)) =
        count_then_name (\<lambda>g. length (snd g)) fst lc"
    by (intro ext) (simp add: count_then_name_def)
  show ?thesis by (simp only: groupBySource_def eq)
qed

lemma site_groups_alt:
  "site_groups lc items =
     array_sort (count_then_name (\<lambda>s. length (site_items (snd s))) (\<lambda>s. siteName (snd s)) lc)
       (site_group_map items)"
proof -
  have eq: "(\<lambda>a b. let byCount = int (length (site_items (snd b))) - int (length (site_items (snd a)))
               in if byCount \<noteq> 0 then byCount else lc (siteName (snd a)) (siteName (snd b))) =
        count_then_name (\<lambda>s. length (site_items (snd s))) (\<lambda>s. siteName (snd s)) lc"
    by (intro ext) (simp add: count_then_name_def)
  show ?thesis by (simp only: site_groups_def eq)
qed

section \<open>Facts about accordion keys and the persistence functions\<close>

lemma hex_digit_inj:
  assumes "a < 16" and "b < 16" and "hex_digit a = hex_digit b"
  shows "a = b"
proof -
  have d: "distinct ''0123456789ABCDEF''" by simp
  have l: "length ''0123456789ABCDEF'' = 16" by simp
  from assms have "''0123456789ABCDEF'' ! a = ''0123456789ABCDEF'' ! b"
    by (simp add: hex_digit_def)
  with d l assms(1,2) show ?thesis
    by (simp add: nth_eq_iff_index_eq)
qed

lemma hex_digit_mem: "hex_digit n \<in> set ''0123456789ABCDEF''"
  unfolding hex_digit_def by (rule nth_mem) simp

lemma hex_digit_not_bar: "hex_digit n \<noteq> CHR ''|''"
  using hex_digit_mem [of n] by auto

lemma not_unreserved_percent: "\<not> unreserved CHR ''%''"
  by (simp add: unreserved_def)

lemma not_unreserved_bar: "\<not> unreserved CHR ''|''"
  by (simp add: unreserved_def)

lemma of_char_lt_256: "(of_char c :: nat) < 256"
  by (rule nat_of_char_less_256)

lemma encode_byte_nonempty: "encode_byte c \<noteq> []"
  by (simp add: encode_byte_def)

lemma encode_byte_no_bar: "CHR ''|'' \<notin> set (encode_byte c)"
  using not_unreserved_bar hex_digit_not_bar [of "of_char c div 16"]
    hex_digit_not_bar [of "of_char c mod 16"]
  by (auto simp: encode_byte_def)

lemma encode_byte_prefix_inj:
  assumes "encode_byte c @ r = encode_byte d @ r'"
  shows "c = d \<and> r = r'"
proof (cases "unreserved c")
  case uc: True
  show ?thesis
  proof (cases "unreserved d")
    case True
    with uc assms show ?thesis by (simp add: encode_byte_def)
  next
    case False
    with uc assms have "c = CHR ''%''" by (simp add: encode_byte_def)
    with uc not_unreserved_percent show ?thesis by simp
  qed
next
  case nc: False
  show ?thesis
  proof (cases "unreserved d")
    case True
    with nc assms have "d = CHR ''%''" by (simp add: encode_byte_def)
    with True not_unreserved_percent show ?thesis by simp
  next
    case False
    with nc assms have h: "hex_digit (of_char c div 16) = hex_digit (of_char d div 16)"
      and l: "hex_digit (of_char c mod 16) = hex_digit (of_char d mod 16)"
      and r: "r = r'"
      by (simp_all add: encode_byte_def)
    have "(of_char c :: nat) div 16 < 16" "(of_char d :: nat) div 16 < 16"
      using of_char_lt_256 [of c] of_char_lt_256 [of d] by (simp_all add: less_mult_imp_div_less)
    with h have hi: "(of_char c :: nat) div 16 = of_char d div 16"
      by (rule hex_digit_inj [rotated 2])
    have "(of_char c :: nat) mod 16 = of_char d mod 16"
      by (rule hex_digit_inj [OF _ _ l]) simp_all
    with hi have "(of_char c :: nat) = of_char d"
      by (metis div_mult_mod_eq)
    then have "c = d" by simp
    with r show ?thesis by simp
  qed
qed

lemma encodeURIComponent_inj: "encodeURIComponent s = encodeURIComponent t \<Longrightarrow> s = t"
proof (induction s arbitrary: t)
  case Nil
  then show ?case
    by (cases t) (simp_all add: encodeURIComponent_def encode_byte_nonempty)
next
  case (Cons c s)
  show ?case
  proof (cases t)
    case Nil
    with Cons.prems show ?thesis
      by (simp add: encodeURIComponent_def encode_byte_nonempty)
  next
    case (Cons d t')
    with Cons.prems have "encode_byte c @ encodeURIComponent s = encode_byte d @ encodeURIComponent t'"
      by (simp add: encodeURIComponent_def)
    then have "c = d \<and> encodeURIComponent s = encodeURIComponent t'"
      by (rule encode_byte_prefix_inj)
    with Cons.IH Cons show ?thesis by simp
  qed
qed

lemma encodeURIComponent_no_bar: "CHR ''|'' \<notin> set (encodeURIComponent s)"
  using encode_byte_no_bar by (auto simp: encodeURIComponent_def)

lemma takeWhile_upto: "a \<notin> set x \<Longrightarrow> takeWhile (\<lambda>c. c \<noteq> a) (x @ a # r) = x"
  by (induction x) auto

lemma split_at_bar:
  assumes "CHR ''|'' \<notin> set x" and "CHR ''|'' \<notin> set y"
    and "x @ CHR ''|'' # r = y @ CHR ''|'' # r'"
  shows "x = y \<and> r = r'"
proof -
  have "takeWhile (\<lambda>c. c \<noteq> CHR ''|'') (x @ CHR ''|'' # r) = x"
    using assms(1) by (rule takeWhile_upto)
  moreover have "takeWhile (\<lambda>c. c \<noteq> CHR ''|'') (y @ CHR ''|'' # r') = y"
    using assms(2) by (rule takeWhile_upto)
  ultimately have "x = y" using assms(3) by simp
  with assms(3) show ?thesis by simp
qed

lemma join_no_bar_single:
  assumes "CHR ''|'' \<notin> set x"
  shows "x \<noteq> join ''|'' (y # z # zs)"
proof
  assume "x = join ''|'' (y # z # zs)"
  then have "CHR ''|'' \<in> set x" by simp
  with assms show False by simp
qed

lemma join_bar_inj:
  assumes "\<forall>x\<in>set xs. CHR ''|'' \<notin> set x" and "\<forall>y\<in>set ys. CHR ''|'' \<notin> set y"
    and "xs \<noteq> []" and "ys \<noteq> []" and "join ''|'' xs = join ''|'' ys"
  shows "xs = ys"
  using assms
proof (induction "''|''" xs arbitrary: ys rule: join.induct)
  case 1
  then show ?case by simp
next
  case (2 x)
  show ?case
  proof (cases ys)
    case Nil
    with 2 show ?thesis by simp
  next
    case (Cons y ys')
    show ?thesis
    proof (cases ys')
      case Nil
      with Cons 2 show ?thesis by simp
    next
      case (Cons z zs)
      with 2 \<open>ys = y # ys'\<close> have "x = join ''|'' (y # z # zs)" "CHR ''|'' \<notin> set x"
        by simp_all
      with join_no_bar_single show ?thesis by blast
    qed
  qed
next
  case (3 x x' xs)
  show ?case
  proof (cases ys)
    case Nil
    with 3 show ?thesis by simp
  next
    case (Cons y ys')
    show ?thesis
    proof (cases ys')
      case Nil
      with Cons 3 have "y = join ''|'' (x # x' # xs)" "CHR ''|'' \<notin> set y"
        by simp_all
      with join_no_bar_single show ?thesis by blast
    next
      case c2: (Cons z zs)
      with Cons 3 have eq: "x @ CHR ''|'' # join ''|'' (x' # xs) = y @ CHR ''|'' # join ''|'' (z # zs)"
        and nx: "CHR ''|'' \<notin> set x" and ny: "CHR ''|'' \<notin> set y"
        by simp_all
      from split_at_bar [OF nx ny eq]
      have xy: "x = y" and rest: "join ''|'' (x' # xs) = join ''|'' (z # zs)"
        by simp_all
      have "x' # xs = z # zs"
        using "3.prems" Cons c2 rest by (intro "3.hyps") simp_all
      with xy Cons c2 show ?thesis by simp
    qed
  qed
qed

lemma makeAccordionId_inj:
  assumes "ps \<noteq> []" and "qs \<noteq> []" and "makeAccordionId ps = makeAccordionId qs"
  shows "ps = qs"
proof -
  let ?enc = "\<lambda>x. encodeURIComponent (or_str (Some x) [])"
  have enc: "?enc x = encodeURIComponent x" for x
    by (simp add: or_str_simps encodeURIComponent_def)
  have "map ?enc ps = map ?enc qs"
  proof (rule join_bar_inj)
    show "\<forall>x\<in>set (map ?enc ps). CHR ''|'' \<notin> set x"
      using encodeURIComponent_no_bar by auto
    show "\<forall>y\<in>set (map ?enc qs). CHR ''|'' \<notin> set y"
      using encodeURIComponent_no_bar by auto
    show "map ?enc ps \<noteq> []" using assms(1) by simp
    show "map ?enc qs \<noteq> []" using assms(2) by simp
    show "join ''|'' (map ?enc ps) = join ''|'' (map ?enc qs)"
      using assms(3) by (simp add: makeAccordionId_def)
  qed
  then have "map encodeURIComponent ps = map encodeURIComponent qs"
    by (simp add: enc)
  moreover have "inj encodeURIComponent"
    by (rule injI) (rule encodeURIComponent_inj)
  ultimately show ?thesis
    by (simp add: inj_map_eq_map)
qed


lemma makeAccordionId_has_bar: "CHR ''|'' \<in> set (makeAccordionId (p # q # ps))"
  by (simp add: makeAccordionId_def)

lemma makeAccordionId_not_proto: "makeAccordionId (p # q # ps) \<noteq> ''__proto__''"
proof
  assume "makeAccordionId (p # q # ps) = ''__proto__''"
  with makeAccordionId_has_bar [of p q ps] have "CHR ''|'' \<in> set ''__proto__''"
    by simp
  then show False by simp
qed

lemma readAccordionState_try_blocked:
  "read_blocked store \<Longrightarrow> readAccordionState JSON_parse store = empty_object"
  by (simp add: readAccordionState_def readAccordionState_try_def getItem_def)

lemma readAccordionState_missing:
  "or_str (entries store ACCORDION_STORAGE_KEY) [] = [] \<Longrightarrow>
     readAccordionState JSON_parse store = empty_object"
  by (simp add: readAccordionState_def readAccordionState_try_def getItem_def)

lemma readAccordionState_unparsable:
  "JSON_parse (or_str (entries store ACCORDION_STORAGE_KEY) []) = Inl e \<Longrightarrow>
     readAccordionState JSON_parse store = empty_object"
  by (simp add: readAccordionState_def readAccordionState_try_def getItem_def)

lemma readAccordionState_not_object:
  "JSON_parse (or_str (entries store ACCORDION_STORAGE_KEY) []) = Inr v \<Longrightarrow>
   \<not> (truthy v \<and> typeof v = ''object'') \<Longrightarrow>
     readAccordionState JSON_parse store = empty_object"
  by (auto simp: readAccordionState_def readAccordionState_try_def getItem_def)

lemma readAccordionState_is_object:
  "\<exists>c m. readAccordionState JSON_parse store = JObj c m"
proof -
  have obj: "\<exists>c m. v = JObj c m" if "truthy v" "typeof v = ''object''" for v
    using that by (cases v) simp_all
  show ?thesis
    using obj
    by (auto simp: readAccordionState_def readAccordionState_try_def getItem_def empty_object_def
        split: sum.splits)
qed

lemma writeAccordionState_cases:
  "writeAccordionState JSON_stringify st store = store \<or>
   (\<exists>text. writeAccordionState JSON_stringify st store =
      store\<lparr>entries := (entries store)(ACCORDION_STORAGE_KEY \<mapsto> text)\<rparr>)"
  by (auto simp: writeAccordionState_def writeAccordionState_try_def setItem_def split: sum.splits)

section \<open>Filtering: the claims\<close>

text \<open>
  C1. With an empty site filter and a query that is empty or consists of white space
  only (a sequence of code points that \<open>trim\<close> removes, such as U+0020, U+00A0 or
  U+3000), \<open>getFilteredItems\<close> returns the mode-selected array itself: the same
  elements in the same order, whatever the snapshot, the mode and the case mapping.
\<close>

theorem getFilteredItems_no_filter:
  assumes "siteFilter st = []" and "set ws \<subseteq> set WHITE_SPACE" and "query st = concat ws"
  shows "getFilteredItems lowerCase st = modeItems st"
proof -
  have "toLowerCase lowerCase (trim (query st)) = []"
    using assms(2,3) by (simp add: trim_white_space_only toLowerCase_Nil)
  then show ?thesis
    using assms(1) by (simp add: getFilteredItems_def)
qed

theorem getFilteredItems_no_filter_witness:
  "getFilteredItems ascii_lower
     (state_ab\<lparr>query := [CHR 0x20, CHR 0xE3, CHR 0x80, CHR 0x80, CHR 0xC2, CHR 0xA0]\<rparr>) =
   [item_a, item_b]"
proof -
  let ?st = "state_ab\<lparr>query := [CHR 0x20, CHR 0xE3, CHR 0x80, CHR 0x80, CHR 0xC2, CHR 0xA0]\<rparr>"
  let ?ws = "[[CHR 0x20], [CHR 0xE3, CHR 0x80, CHR 0x80], [CHR 0xC2, CHR 0xA0]]"
  have f: "siteFilter ?st = []"
    by (simp add: state_ab_def state0_def)
  have w: "set ?ws \<subseteq> set WHITE_SPACE"
    by (simp add: WHITE_SPACE_def)
  have q: "query ?st = concat ?ws"
    by simp
  have "getFilteredItems ascii_lower ?st = modeItems ?st"
    using f w q by (rule getFilteredItems_no_filter)
  then show ?thesis
    by (simp add: modeItems_def state_ab_def state0_def)
qed

text \<open>
  C2. With a non-empty site filter \<open>S\<close>, every item that \<open>getFilteredItems\<close> returns
  has \<open>site_id\<close> equal to \<open>S\<close>.
\<close>

theorem getFilteredItems_site_filter:
  assumes "siteFilter st \<noteq> []" and "item \<in> set (getFilteredItems lowerCase st)"
  shows "site_id item = siteFilter st"
  using assms by (auto simp: getFilteredItems_def Let_def split: if_splits)

theorem getFilteredItems_site_filter_witness:
  "item_a \<in> set (getFilteredItems ascii_lower (state_ab\<lparr>siteFilter := ''X''\<rparr>)) \<and>
   site_id item_a = ''X''"
proof -
  have mem: "item_a \<in> set (getFilteredItems ascii_lower (state_ab\<lparr>siteFilter := ''X''\<rparr>))"
    by code_simp
  have "siteFilter (state_ab\<lparr>siteFilter := ''X''\<rparr>) \<noteq> []"
    by simp
  from getFilteredItems_site_filter [OF this mem] mem show ?thesis
    by simp
qed

text \<open>
  C3, as stated, fails. The callback searches one string in which the five fields are
  joined by spaces, and it searches for the trimmed query: the query \<open>b c\<close> keeps an
  item whose title ends in \<open>b\<close> and whose \<open>title_zh\<close> starts with \<open>c\<close>, although no
  single field contains \<open>b c\<close>. (All strings are ASCII, on which \<open>ascii_lower\<close> is the
  built-in case mapping.)
\<close>

theorem getFilteredItems_per_field_counterexample:
  "query (state_ab\<lparr>query := ''b c''\<rparr>) \<noteq> [] \<and>
   item_a \<in> set (getFilteredItems ascii_lower (state_ab\<lparr>query := ''b c''\<rparr>)) \<and>
   \<not> matches_some_field ascii_lower item_a (query (state_ab\<lparr>query := ''b c''\<rparr>))"
  by code_simp

text \<open>
  C3, amended. An item of the mode-selected list is retained exactly when it passes the
  optional exact site-id filter and, if the lower-cased trimmed query is not empty, that
  query occurs in the lower-cased string that joins \<open>title\<close>, \<open>title_zh\<close>, \<open>title_en\<close>,
  the site name and the source with single spaces (absent fields count as empty).
\<close>

theorem getFilteredItems_iff:
  "item \<in> set (getFilteredItems lowerCase st) \<longleftrightarrow>
     item \<in> set (modeItems st) \<and>
     (siteFilter st = [] \<or> site_id item = siteFilter st) \<and>
     (toLowerCase lowerCase (trim (query st)) = [] \<or>
      js_includes
        (toLowerCase lowerCase
           (or_str (title item) [] @ '' '' @ or_str (title_zh item) [] @ '' '' @
            or_str (title_en item) [] @ '' '' @ site_name item @ '' '' @ source item))
        (toLowerCase lowerCase (trim (query st))))"
  by (auto simp: getFilteredItems_def Let_def or_str_simps)

theorem getFilteredItems_iff_witness:
  "item_a \<in> set (getFilteredItems ascii_lower (state_ab\<lparr>query := '' B C ''\<rparr>)) \<and>
   item_b \<notin> set (getFilteredItems ascii_lower (state_ab\<lparr>query := '' B C ''\<rparr>))"
proof -
  let ?st = "state_ab\<lparr>query := '' B C ''\<rparr>"
  have q: "toLowerCase ascii_lower (trim (query ?st)) = ''b c''"
    by code_simp
  have m: "item_a \<in> set (modeItems ?st) \<and> item_b \<in> set (modeItems ?st) \<and> siteFilter ?st = []"
    by code_simp
  have a: "js_includes
        (toLowerCase ascii_lower
           (or_str (title item_a) [] @ '' '' @ or_str (title_zh item_a) [] @ '' '' @
            or_str (title_en item_a) [] @ '' '' @ site_name item_a @ '' '' @ source item_a))
        ''b c''"
    by code_simp
  have b: "\<not> js_includes
        (toLowerCase ascii_lower
           (or_str (title item_b) [] @ '' '' @ or_str (title_zh item_b) [] @ '' '' @
            or_str (title_en item_b) [] @ '' '' @ site_name item_b @ '' '' @ source item_b))
        ''b c''"
    by code_simp
  from q m a b show ?thesis
    by (simp add: getFilteredItems_iff)
qed

section \<open>Grouping: the claims\<close>

text \<open>
  C4. The grouping functions partition their input. For \<open>groupBySource\<close>, and for the
  site level of \<open>renderGroupedBySiteAndSource\<close>: the counts of the groups add up to the
  length of the input; the groups together hold the input's items, each occurrence
  once; the keys of the groups are pairwise different and a group holds exactly the
  items of its key, in input order, so that every input item is in exactly one group.
  In the two-level grouping the counts of the source groups inside the site groups
  add up to the length of the input as well.
\<close>

theorem grouping_partitions_input:
  "sum_list (map (\<lambda>g. length (snd g)) (groupBySource lc items)) = length items \<and>
   mset (concat (map snd (groupBySource lc items))) = mset items \<and>
   distinct (map fst (groupBySource lc items)) \<and>
   (\<forall>g\<in>set (groupBySource lc items). snd g = filter (\<lambda>x. source_key x = fst g) items) \<and>
   (\<forall>x\<in>set items. \<exists>!g. g \<in> set (groupBySource lc items) \<and> x \<in> set (snd g)) \<and>
   sum_list (map (\<lambda>s. length (site_items (snd s))) (site_groups lc items)) = length items \<and>
   mset (concat (map (\<lambda>s. site_items (snd s)) (site_groups lc items))) = mset items \<and>
   distinct (map fst (site_groups lc items)) \<and>
   (\<forall>s\<in>set (site_groups lc items).
      site_items (snd s) = filter (\<lambda>x. site_id x = fst s) items) \<and>
   (\<forall>x\<in>set items. \<exists>!s. s \<in> set (site_groups lc items) \<and> x \<in> set (site_items (snd s))) \<and>
   sum_list (map (\<lambda>s. sum_list (map (\<lambda>g. length (snd g))
                                  (groupBySource lc (site_items (snd s)))))
              (site_groups lc items)) = length items"
proof -
  have src_one: "\<exists>!g. g \<in> set (groupBySource lc items) \<and> x \<in> set (snd g)"
    if "x \<in> set items" for x
  proof -
    from that have "x \<in># mset (concat (map snd (groupBySource lc items)))"
      by (simp only: groupBySource_mset set_mset_mset)
    then obtain g where g: "g \<in> set (groupBySource lc items)" "x \<in> set (snd g)"
      by auto
    have "h = g" if h: "h \<in> set (groupBySource lc items)" "x \<in> set (snd h)" for h
    proof -
      from g have kg: "fst g = source_key x"
        using groupBySource_entry [of g lc items] by auto
      from h have kh: "fst h = source_key x"
        using groupBySource_entry [of h lc items] by auto
      from g(1) h(1) kg kh have "snd h = snd g"
        using groupBySource_entry [of g lc items] groupBySource_entry [of h lc items] by simp
      with kg kh show ?thesis by (simp add: prod_eq_iff)
    qed
    with g show ?thesis by blast
  qed
  have site_one: "\<exists>!s. s \<in> set (site_groups lc items) \<and> x \<in> set (site_items (snd s))"
    if "x \<in> set items" for x
  proof -
    from that have "x \<in># mset (concat (map (\<lambda>s. site_items (snd s)) (site_groups lc items)))"
      by (simp only: site_groups_mset set_mset_mset)
    then obtain s where s: "s \<in> set (site_groups lc items)" "x \<in> set (site_items (snd s))"
      by auto
    have "t = s" if t: "t \<in> set (site_groups lc items)" "x \<in> set (site_items (snd t))" for t
    proof -
      from s have ks: "fst s = site_id x"
        using site_groups_entry [of s lc items] by auto
      from t have kt: "fst t = site_id x"
        using site_groups_entry [of t lc items] by auto
      have "distinct (map fst (site_groups lc items))"
        by (rule site_groups_distinct)
      with s(1) t(1) ks kt show ?thesis
        by (metis eq_key_imp_eq_value prod.collapse)
    qed
    with s show ?thesis by blast
  qed
  have src_all: "\<forall>x\<in>set items. \<exists>!g. g \<in> set (groupBySource lc items) \<and> x \<in> set (snd g)"
    using src_one by blast
  have site_all:
    "\<forall>x\<in>set items. \<exists>!s. s \<in> set (site_groups lc items) \<and> x \<in> set (site_items (snd s))"
    using site_one by blast
  have src_entry:
    "\<forall>g\<in>set (groupBySource lc items). snd g = filter (\<lambda>x. source_key x = fst g) items"
    using groupBySource_entry by blast
  have site_entry:
    "\<forall>s\<in>set (site_groups lc items). site_items (snd s) = filter (\<lambda>x. site_id x = fst s) items"
    using site_groups_entry by blast
  from groupBySource_sum groupBySource_mset groupBySource_distinct src_entry src_all
    site_groups_sum site_groups_mset site_groups_distinct site_entry site_all
    site_groups_nested_sum
  show ?thesis
    by (intro conjI)
qed

theorem grouping_partitions_input_witness:
  "groupBySource lex_compare [item_a, item_b, item_a] =
     [(''news'', [item_a, item_a]), (UNSPECIFIED_SOURCE, [item_b])] \<and>
   sum_list (map (\<lambda>g. length (snd g)) (groupBySource lex_compare [item_a, item_b, item_a])) = 3 \<and>
   snd (''news'', [item_a, item_a]) =
     filter (\<lambda>x. source_key x = fst (''news'', [item_a, item_a])) [item_a, item_b, item_a] \<and>
   map fst (site_groups lex_compare [item_a, item_b, item_a]) = [''X'', ''Y''] \<and>
   sum_list (map (\<lambda>s. length (site_items (snd s)))
     (site_groups lex_compare [item_a, item_b, item_a])) = 3"
proof -
  have run: "groupBySource lex_compare [item_a, item_b, item_a] =
     [(''news'', [item_a, item_a]), (UNSPECIFIED_SOURCE, [item_b])]"
    by code_simp
  have run2: "map fst (site_groups lex_compare [item_a, item_b, item_a]) = [''X'', ''Y'']"
    by code_simp
  note inst = grouping_partitions_input [of lex_compare "[item_a, item_b, item_a]"]
  from inst have sum1:
    "sum_list (map (\<lambda>g. length (snd g)) (groupBySource lex_compare [item_a, item_b, item_a])) = 3"
    by simp
  from inst have sum2: "sum_list (map (\<lambda>s. length (site_items (snd s)))
     (site_groups lex_compare [item_a, item_b, item_a])) = 3"
    by simp
  from inst have "\<forall>g\<in>set (groupBySource lex_compare [item_a, item_b, item_a]).
      snd g = filter (\<lambda>x. source_key x = fst g) [item_a, item_b, item_a]"
    by blast
  then have grp: "snd (''news'', [item_a, item_a]) =
     filter (\<lambda>x. source_key x = fst (''news'', [item_a, item_a])) [item_a, item_b, item_a]"
    by (rule bspec) (simp add: run)
  from run run2 sum1 sum2 grp show ?thesis
    by (intro conjI)
qed

text \<open>
  C5. With a locale comparison that is a consistent comparator, the lists returned by
  \<open>computeSiteStats\<close>, by \<open>groupBySource\<close> and by the site level of
  \<open>renderGroupedBySiteAndSource\<close> are sorted by descending count and, among equal
  counts, by ascending name; the sort is stable: the groups that the comparator ranks
  equal to a given one come in the order of the unsorted list, which is the order in
  which the keys were first met in the input.
\<close>

theorem groups_sorted_stable:
  assumes "consistent_comparator lc"
  shows
   "sorted_wrt (\<lambda>a b. stat_count b < stat_count a \<or>
        (stat_count a = stat_count b \<and> lc (stat_site_name a) (stat_site_name b) \<le> 0))
      (computeSiteStats lc items) \<and>
    filter (\<lambda>h. stat_count (r :: site_stat) = stat_count h \<and>
         lc (stat_site_name r) (stat_site_name h) = 0)
      (computeSiteStats lc items) =
    filter (\<lambda>h. stat_count r = stat_count h \<and> lc (stat_site_name r) (stat_site_name h) = 0)
      (site_stat_rows items) \<and>
    map stat_site_id (site_stat_rows items) = encounter_order (map site_id items) \<and>
    sorted_wrt (\<lambda>a b. length (snd b) < length (snd a) \<or>
        (length (snd a) = length (snd b) \<and> lc (fst a) (fst b) \<le> 0))
      (groupBySource lc items) \<and>
    filter (\<lambda>h. length (snd (g :: string \<times> news_item list)) = length (snd h) \<and>
         lc (fst g) (fst h) = 0)
      (groupBySource lc items) =
    filter (\<lambda>h. length (snd g) = length (snd h) \<and> lc (fst g) (fst h) = 0)
      (source_group_map items) \<and>
    map fst (source_group_map items) = encounter_order (map source_key items) \<and>
    sorted_wrt (\<lambda>a b. length (site_items (snd b)) < length (site_items (snd a)) \<or>
        (length (site_items (snd a)) = length (site_items (snd b)) \<and>
         lc (siteName (snd a)) (siteName (snd b)) \<le> 0))
      (site_groups lc items) \<and>
    filter (\<lambda>h. length (site_items (snd (s :: string \<times> site_entry))) =
           length (site_items (snd h)) \<and>
         lc (siteName (snd s)) (siteName (snd h)) = 0)
      (site_groups lc items) =
    filter (\<lambda>h. length (site_items (snd s)) = length (site_items (snd h)) \<and>
         lc (siteName (snd s)) (siteName (snd h)) = 0)
      (site_group_map items) \<and>
    map fst (site_group_map items) = encounter_order (map site_id items)"
proof -
  note sorted = sorted_count_then_name [OF assms]
  note stable = stable_count_then_name [OF assms]
  from sorted [of "stat_count :: site_stat \<Rightarrow> nat" stat_site_name "site_stat_rows items"]
    stable [of "stat_count :: site_stat \<Rightarrow> nat" r stat_site_name "site_stat_rows items"]
    site_stat_rows_ids [of items]
    sorted [of "\<lambda>g :: string \<times> news_item list. length (snd g)" fst
      "source_group_map items"]
    stable [of "\<lambda>g :: string \<times> news_item list. length (snd g)" g fst
      "source_group_map items"]
    source_group_map_keys [of items]
    sorted [of "\<lambda>s :: string \<times> site_entry. length (site_items (snd s))"
      "\<lambda>s. siteName (snd s)" "site_group_map items"]
    stable [of "\<lambda>s :: string \<times> site_entry. length (site_items (snd s))" s
      "\<lambda>s. siteName (snd s)" "site_group_map items"]
    site_group_map_keys [of items]
  show ?thesis
    unfolding computeSiteStats_alt groupBySource_alt site_groups_alt
    by (intro conjI)
qed

theorem groups_sorted_stable_witness:
  "consistent_comparator lex_compare \<and>
   map stat_site_id (computeSiteStats lex_compare items_w) = [''Y'', ''Z'', ''W''] \<and>
   map stat_count (computeSiteStats lex_compare items_w) = [2, 1, 1] \<and>
   sorted_wrt (\<lambda>a b. stat_count b < stat_count a \<or>
        (stat_count a = stat_count b \<and> lex_compare (stat_site_name a) (stat_site_name b) \<le> 0))
      (computeSiteStats lex_compare items_w) \<and>
   map stat_site_id (site_stat_rows items_w) = encounter_order (map site_id items_w)"
proof -
  have c: "consistent_comparator lex_compare"
    by (rule consistent_lex_compare)
  note inst = groups_sorted_stable [OF c, of items_w]
  have s: "sorted_wrt (\<lambda>a b. stat_count b < stat_count a \<or>
        (stat_count a = stat_count b \<and> lex_compare (stat_site_name a) (stat_site_name b) \<le> 0))
      (computeSiteStats lex_compare items_w)"
    by (rule conjunct1 [OF inst])
  have e: "map stat_site_id (site_stat_rows items_w) = encounter_order (map site_id items_w)"
    by (rule conjunct1 [OF conjunct2 [OF conjunct2 [OF inst]]])
  have run: "map stat_site_id (computeSiteStats lex_compare items_w) = [''Y'', ''Z'', ''W'']"
    by code_simp
  have run2: "map stat_count (computeSiteStats lex_compare items_w) = [2, 1, 1]"
    by code_simp
  from c run run2 s e show ?thesis
    by (intro conjI)
qed

section \<open>Titles: the claims\<close>




section \<open>Loading: the claims\<close>

text \<open>
  C7, as stated, fails in one direction: an ok status does not suffice for a payload to
  be returned. With status 200 and a body that is not JSON, \<open>res.json()\<close> rejects and
  \<open>loadNewsData\<close> fails with that error.
\<close>

theorem loadNewsData_ok_counterexample:
  "response_ok \<lparr>status = 200, body_json = Inl (JsError ''SyntaxError'')\<rparr> \<and>
   fst (loadNewsData (net_of (Inr \<lparr>status = 200, body_json = Inl (JsError ''SyntaxError'')\<rparr>)) 0)
     = Inl (JsError ''SyntaxError'')"
  by code_simp

text \<open>
  C7, amended. \<open>loadNewsData\<close> returns a payload exactly when \<open>fetch\<close> settles to a
  response with an ok status (200 to 299) whose body parses, and the payload is the
  parsed body. For a response with any other status it fails with an error whose
  message ends in that status number; when the body of an ok response does not parse
  or \<open>fetch\<close> itself rejects, it fails with that error. In every case exactly one request
  is made.
\<close>

theorem loadNewsData_contract:
  "(fst (loadNewsData net now) = Inr p \<longleftrightarrow>
      (\<exists>res. answer net (snapshot_url now) = Inr res \<and> response_ok res \<and> body_json res = Inr p)) \<and>
   (answer net (snapshot_url now) = Inr res \<and> \<not> response_ok res \<longrightarrow>
      fst (loadNewsData net now) = Inl (JsError (LOAD_FAILED_PREFIX @ show_nat (status res))) \<and>
      js_includes (LOAD_FAILED_PREFIX @ show_nat (status res)) (show_nat (status res))) \<and>
   (answer net (snapshot_url now) = Inr res \<and> response_ok res \<and> body_json res = Inl e \<longrightarrow>
      fst (loadNewsData net now) = Inl e) \<and>
   (answer net (snapshot_url now) = Inl e \<longrightarrow> fst (loadNewsData net now) = Inl e) \<and>
   requests (snd (loadNewsData net now)) = requests net @ [snapshot_url now]"
proof (cases "answer net (snapshot_url now)")
  case (Inl e')
  then show ?thesis
    by (simp add: loadNewsData_def fetch_def)
next
  case (Inr res')
  then show ?thesis
    by (cases "body_json res'") (auto simp: loadNewsData_def fetch_def js_includes_suffix)
qed

theorem loadNewsData_contract_witness:
  "fst (loadNewsData (net_of (Inr \<lparr>status = 500, body_json = Inr payload0\<rparr>)) 7) =
     Inl (JsError (LOAD_FAILED_PREFIX @ ''500'')) \<and>
   js_includes (LOAD_FAILED_PREFIX @ ''500'') ''500'' \<and>
   fst (loadNewsData (net_of (Inr \<lparr>status = 200, body_json = Inr payload_ab\<rparr>)) 7) = Inr payload_ab \<and>
   requests (snd (loadNewsData (net_of (Inr \<lparr>status = 500, body_json = Inr payload0\<rparr>)) 7)) =
     [''./data/latest-24h.json?t=7'']"
proof -
  let ?r500 = "\<lparr>status = 500, body_json = Inr payload0\<rparr>"
  let ?r200 = "\<lparr>status = 200, body_json = Inr payload_ab\<rparr>"
  have a500: "answer (net_of (Inr ?r500)) (snapshot_url 7) = Inr ?r500 \<and> \<not> response_ok ?r500"
    by (simp add: net_of_def response_ok_def)
  have s500: "show_nat (status ?r500) = ''500''"
    by code_simp
  have a200: "\<exists>res. answer (net_of (Inr ?r200)) (snapshot_url 7) = Inr res \<and> response_ok res \<and>
      body_json res = Inr payload_ab"
    by (simp add: net_of_def response_ok_def)
  have u: "requests (net_of (Inr ?r500)) @ [snapshot_url 7] = [''./data/latest-24h.json?t=7'']"
    by code_simp
  from loadNewsData_contract [of "net_of (Inr ?r500)" 7 _ ?r500] a500 s500 u
  have 1: "fst (loadNewsData (net_of (Inr ?r500)) 7) = Inl (JsError (LOAD_FAILED_PREFIX @ ''500''))"
    and 2: "js_includes (LOAD_FAILED_PREFIX @ ''500'') ''500''"
    and 4: "requests (snd (loadNewsData (net_of (Inr ?r500)) 7)) = [''./data/latest-24h.json?t=7'']"
    by simp_all
  from loadNewsData_contract [of "net_of (Inr ?r200)" 7 payload_ab] a200
  have 3: "fst (loadNewsData (net_of (Inr ?r200)) 7) = Inr payload_ab"
    by blast
  from 1 2 3 4 show ?thesis by (intro conjI)
qed

section \<open>Initialisation: the claims\<close>

text \<open>
  What holds when \<open>loadNewsData\<close> itself fails: the main page script and the follow
  page script, which run on their initial states, leave the item collections empty
  and assign the message, inside a \<open>div\<close>, to \<open>innerHTML\<close>; the Vue application resets
  its collections, whatever they held, and keeps the message as a text.
\<close>

lemma load_rejection_view:
  assumes "fst (loadNewsData net now) = Inl err"
  shows
   "itemsAi (fst (init JSON_parse lowerCase fmtDate lc now store net state0 pg)) = [] \<and>
    itemsAll (fst (init JSON_parse lowerCase fmtDate lc now store net state0 pg)) = [] \<and>
    itemsAllRaw (fst (init JSON_parse lowerCase fmtDate lc now store net state0 pg)) = [] \<and>
    followOpmlItems (fst (init JSON_parse lowerCase fmtDate lc now store net state0 pg)) = [] \<and>
    updatedAt (fst (snd (init JSON_parse lowerCase fmtDate lc now store net state0 pg))) =
      NEWS_LOAD_FAILED \<and>
    newsList (fst (snd (init JSON_parse lowerCase fmtDate lc now store net state0 pg))) =
      Markup (EMPTY_DIV_OPEN @ message err @ EMPTY_DIV_CLOSE) \<and>
    fst (init_follow nullError fmtDate now net follow_state0 fpg) = follow_state0 \<and>
    fst (snd (init_follow nullError fmtDate now net follow_state0 fpg)) = follow_catch err fpg \<and>
    followItems (fst (mounted now net d)) = [] \<and>
    followGroups (fst (mounted now net d)) = [] \<and>
    momoyuItems (fst (mounted now net d)) = [] \<and>
    momoyuParsed (fst (mounted now net d)) = None \<and>
    vue_generatedAt (fst (mounted now net d)) = None \<and>
    loadError (fst (mounted now net d)) =
      (if message err \<noteq> [] then message err else DATA_LOAD_FAILED) \<and>
    updatedLabel fmtDate (fst (mounted now net d)) = DATA_LOAD_FAILED \<and>
    followEmptyText (fst (mounted now net d)) = loadError (fst (mounted now net d)) \<and>
    momoyuEmptyText (fst (mounted now net d)) = loadError (fst (mounted now net d))"
proof -
  from assms obtain net' where load: "loadNewsData net now = (Inl err, net')"
    by (rule loadNewsData_failed_cases)
  have i: "init JSON_parse lowerCase fmtDate lc now store net state0 pg =
      (state0\<lparr>accordionState := readAccordionState JSON_parse store\<rparr>,
       pg\<lparr>updatedAt := NEWS_LOAD_FAILED,
          newsList := Markup (EMPTY_DIV_OPEN @ message err @ EMPTY_DIV_CLOSE)\<rparr>, net')"
    by (simp add: init_def load)
  have f: "init_follow nullError fmtDate now net follow_state0 fpg =
      (follow_state0, follow_catch err fpg, net')"
    by (simp add: init_follow_def load)
  have m: "mounted now net d =
      (d\<lparr>loadError := (if message err \<noteq> [] then message err else DATA_LOAD_FAILED),
         followItems := [], followGroups := [], momoyuItems := [], momoyuParsed := None,
         vue_generatedAt := None\<rparr>, net')"
    by (simp add: mounted_def load)
  have ne: "DATA_LOAD_FAILED \<noteq> []"
    by (simp add: DATA_LOAD_FAILED_def)
  show ?thesis
    unfolding i f m
    using ne by (simp add: state0_def updatedLabel_def followEmptyText_def momoyuEmptyText_def)
qed

text \<open>
  C8. After a failed initialisation every item collection of the view state should be
  empty and the error message should be shown in place of the time stamp and of the
  lists. The Vue application does that. The two other scripts do not:

  \<^item> they assign the message to \<open>innerHTML\<close> without escaping it. For a response with
    status 200 whose body is an HTML page, \<open>res.json()\<close> rejects with a message that
    quotes \<open><!DOCTYPE\<close>; what is assigned is markup in which the message is cut by a
    markup declaration, not a text that shows the message;
  \<^item> the \<open>catch\<close> clause of the follow page script does not reset the state. For a
    payload in which a subscription group is \<open>null\<close>, the state receives the items of
    the payload, the renderer raises, and the page shows the failure label while the
    state keeps the items.
\<close>

theorem load_failure_view_defects:
  "fst (loadNewsData net_html 7) = Inl (JsError doctype_message) \<and>
   js_includes doctype_message ''<!DOCTYPE'' \<and>
   newsList (fst (snd (init parse_demo ascii_lower (\<lambda>s. None) lex_compare 7 store0 net_html
     state0 page0))) = Markup (EMPTY_DIV_OPEN @ doctype_message @ EMPTY_DIV_CLOSE) \<and>
   fp_followOpmlList (fst (snd (init_follow null_error (\<lambda>s. None) 7 net_html follow_state0
     follow_page0))) = FMarkup (EMPTY_DIV_OPEN @ doctype_message @ EMPTY_DIV_CLOSE) \<and>
   loadError (fst (mounted 7 net_html vue_data0)) = doctype_message \<and>
   fst (loadNewsData net_null_group 7) = Inr payload_null_group \<and>
   f_followOpmlItems (fst (init_follow null_error (\<lambda>s. None) 7 net_null_group follow_state0
     follow_page0)) = [item_a] \<and>
   fp_updatedAt (fst (snd (init_follow null_error (\<lambda>s. None) 7 net_null_group follow_state0
     follow_page0))) = DATA_LOAD_FAILED \<and>
   fp_followOpmlList (fst (snd (init_follow null_error (\<lambda>s. None) 7 net_null_group
     follow_state0 follow_page0))) =
     FMarkup (EMPTY_DIV_OPEN @ message null_error @ EMPTY_DIV_CLOSE)"
  by code_simp

section \<open>Persistence: the claims\<close>

text \<open>
  C9. \<open>readAccordionState\<close> and \<open>writeAccordionState\<close> swallow every storage failure
  (their \<open>catch\<close> clauses are the \<open>Inl\<close> branches above, and the lemmas
  \<open>readAccordionState_try_blocked\<close>, \<open>readAccordionState_missing\<close>,
  \<open>readAccordionState_unparsable\<close>, \<open>readAccordionState_not_object\<close> and
  \<open>writeAccordionState_cases\<close> give their results). The result of
  \<open>readAccordionState\<close> is not always a plain object, though: a stored text that parses
  to an array passes the test \<open>parsed && typeof parsed === "object"\<close> and is returned as
  it is, instead of the empty object.
\<close>

theorem readAccordionState_returns_array:
  assumes "\<not> read_blocked store"
    and "entries store ACCORDION_STORAGE_KEY = Some raw"
    and "raw \<noteq> []"
    and "JSON_parse raw = Inr (JObj ArrayObject m)"
  shows "readAccordionState JSON_parse store = JObj ArrayObject m \<and>
         readAccordionState JSON_parse store \<noteq> empty_object"
  using assms
  by (simp add: readAccordionState_def readAccordionState_try_def getItem_def or_str_simps
      empty_object_def)

theorem readAccordionState_returns_array_witness:
  "entries store_array ACCORDION_STORAGE_KEY = Some ''[]'' \<and>
   parse_demo ''[]'' = Inr (JObj ArrayObject Map.empty) \<and>
   readAccordionState parse_demo store_array = JObj ArrayObject Map.empty"
proof -
  have a: "\<not> read_blocked store_array"
    by (simp add: store_array_def)
  have b: "entries store_array ACCORDION_STORAGE_KEY = Some ''[]''"
    by (simp add: store_array_def)
  have c: "''[]'' \<noteq> ([] :: string)"
    by simp
  have d: "parse_demo ''[]'' = Inr (JObj ArrayObject Map.empty)"
    by (simp add: parse_demo_def)
  from readAccordionState_returns_array
      [where store = store_array and raw = "''[]''" and JSON_parse = parse_demo and m = Map.empty]
    a b c d
  show ?thesis
    by simp
qed

text \<open>
  What holds for an accordion map that is a plain object: a flag recorded by the toggle
  handler under the key of a panel is read back after the write, provided that
  \<open>JSON.parse\<close> maps the text that \<open>JSON.stringify\<close> gives back to the recorded object
  and that the store accepts the write and can be read. The keys of panels (lists of
  two or three parts) are pairwise different when their parts are.
\<close>

lemma round_trip_plain_object:
  assumes plain: "accordionState st = JObj PlainObject m"
    and key: "k = makeAccordionId (p # q # ps)"
    and str: "JSON_stringify (JObj PlainObject (m(k \<mapsto> JBool b))) = Inr json"
    and nonempty: "json \<noteq> []"
    and par: "JSON_parse json = Inr (JObj PlainObject (m(k \<mapsto> JBool b)))"
    and w: "\<not> write_blocked store"
    and r: "\<not> read_blocked store"
  shows
   "get_prop (readAccordionState JSON_parse (snd (on_toggle JSON_stringify k b st store))) k =
      Some (JBool b)"
proof -
  have np: "k \<noteq> ''__proto__''"
    unfolding key by (rule makeAccordionId_not_proto)
  have written: "snd (on_toggle JSON_stringify k b st store) =
      store\<lparr>entries := (entries store)(ACCORDION_STORAGE_KEY \<mapsto> json)\<rparr>"
    using plain np str w
    by (simp add: on_toggle_def writeAccordionState_def writeAccordionState_try_def setItem_def)
  have reread: "readAccordionState JSON_parse
      (store\<lparr>entries := (entries store)(ACCORDION_STORAGE_KEY \<mapsto> json)\<rparr>) =
      JObj PlainObject (m(k \<mapsto> JBool b))"
    using r nonempty par
    by (simp add: readAccordionState_def readAccordionState_try_def getItem_def or_str_simps)
  show ?thesis
    by (simp add: written reread)
qed

lemma panel_keys_differ:
  "makeAccordionId [''site'', siteId] \<noteq> makeAccordionId [''source'', ctx, src]"
  "makeAccordionId [''site'', siteId] = makeAccordionId [''site'', siteId'] \<Longrightarrow> siteId = siteId'"
  "makeAccordionId [''source'', ctx, src] = makeAccordionId [''source'', ctx', src'] \<Longrightarrow>
     ctx = ctx' \<and> src = src'"
  using makeAccordionId_inj [of "[''site'', siteId]" "[''source'', ctx, src]"]
    makeAccordionId_inj [of "[''site'', siteId]" "[''site'', siteId']"]
    makeAccordionId_inj [of "[''source'', ctx, src]" "[''source'', ctx', src']"]
  by auto

text \<open>
  C10. A flag set on a panel should be read back after a reload. It is not when the
  accordion state is an array, which \<open>readAccordionState\<close> returns for a stored array
  (see C9): the toggle handler records the flag as a named property of the array,
  \<open>JSON.stringify\<close> writes the elements of an array only, so the text that is stored
  parses to the array without the flag, and the next \<open>readAccordionState\<close> has no value
  for the key.
\<close>

theorem toggle_lost_on_array_state:
  assumes arr: "accordionState st = JObj ArrayObject m"
    and key: "k = makeAccordionId (p # q # ps)"
    and absent: "m k = None"
    and str: "JSON_stringify (JObj ArrayObject (m(k \<mapsto> JBool b))) = Inr json"
    and nonempty: "json \<noteq> []"
    and par: "JSON_parse json = Inr (JObj ArrayObject m)"
    and w: "\<not> write_blocked store"
    and r: "\<not> read_blocked store"
  shows
   "get_prop (accordionState (fst (on_toggle JSON_stringify k b st store))) k = Some (JBool b) \<and>
    get_prop (readAccordionState JSON_parse (snd (on_toggle JSON_stringify k b st store))) k =
      None"
proof -
  have np: "k \<noteq> ''__proto__''"
    unfolding key by (rule makeAccordionId_not_proto)
  have recorded:
    "get_prop (accordionState (fst (on_toggle JSON_stringify k b st store))) k = Some (JBool b)"
    using arr np by (simp add: on_toggle_def Let_def)
  have written: "snd (on_toggle JSON_stringify k b st store) =
      store\<lparr>entries := (entries store)(ACCORDION_STORAGE_KEY \<mapsto> json)\<rparr>"
    using arr np str w
    by (simp add: on_toggle_def writeAccordionState_def writeAccordionState_try_def setItem_def)
  have reread: "readAccordionState JSON_parse
      (store\<lparr>entries := (entries store)(ACCORDION_STORAGE_KEY \<mapsto> json)\<rparr>) =
      JObj ArrayObject m"
    using r nonempty par
    by (simp add: readAccordionState_def readAccordionState_try_def getItem_def or_str_simps)
  from recorded absent show ?thesis
    by (simp add: written reread)
qed

theorem toggle_lost_on_array_state_witness:
  "readAccordionState parse_demo store_array = JObj ArrayObject Map.empty \<and>
   makeAccordionId [''site'', ''X''] = ''site|X'' \<and>
   get_prop (accordionState (fst (on_toggle stringify_demo ''site|X'' True
      (state0\<lparr>accordionState := readAccordionState parse_demo store_array\<rparr>) store_array)))
      ''site|X'' = Some (JBool True) \<and>
   get_prop (readAccordionState parse_demo (snd (on_toggle stringify_demo ''site|X'' True
      (state0\<lparr>accordionState := readAccordionState parse_demo store_array\<rparr>) store_array)))
      ''site|X'' = None"
proof -
  let ?st = "state0\<lparr>accordionState := readAccordionState parse_demo store_array\<rparr>"
  have rd: "readAccordionState parse_demo store_array = JObj ArrayObject Map.empty"
    by (simp add: readAccordionState_def readAccordionState_try_def getItem_def store_array_def
        parse_demo_def or_str_simps)
  have arr: "accordionState ?st = JObj ArrayObject Map.empty"
    by (simp add: rd)
  have k: "''site|X'' = makeAccordionId (''site'' # ''X'' # [])"
    by code_simp
  have absent: "Map.empty ''site|X'' = (None :: jsval option)"
    by simp
  have str: "stringify_demo (JObj ArrayObject [''site|X'' \<mapsto> JBool True]) = Inr ''[]''"
    by (simp add: stringify_demo_def)
  have ne: "''[]'' \<noteq> ([] :: string)"
    by simp
  have par: "parse_demo ''[]'' = Inr (JObj ArrayObject Map.empty)"
    by (simp add: parse_demo_def)
  have w: "\<not> write_blocked store_array" and r: "\<not> read_blocked store_array"
    by (simp_all add: store_array_def)
  note inst = toggle_lost_on_array_state
      [where st = ?st and m = Map.empty and k = "''site|X''" and p = "''site''" and q = "''X''"
         and ps = "[]" and JSON_stringify = stringify_demo and b = True and json = "''[]''"
         and JSON_parse = parse_demo and store = store_array]
  from inst [OF arr k absent str ne par w r] rd k show ?thesis
    by simp
qed

end
